theory Spec2Isabelle
  imports Complex_Main "HOL-Library.AList"
begin

section \<open>Values exchanged with the hub\<close>

text \<open>
  The development covers \<^verbatim>\<open>src/api/websocket.py\<close>: the class \<^verbatim>\<open>ConnectionManager\<close> and the
  receive loop of \<^verbatim>\<open>websocket_endpoint\<close>.

  A socket is identified by a handle. JSON values are the flat ones the protocol uses:
  null, integers and strings (booleans, floats and nested values are outside the model).
  A Python \<^verbatim>\<open>dict\<close> is an association list in insertion order: \<^verbatim>\<open>d[k] = v\<close> is
  \<^const>\<open>AList.update\<close> (in place for a present key, appended for a new one),
  \<^verbatim>\<open>del d[k]\<close> is \<^const>\<open>AList.delete\<close>, a lookup is \<^const>\<open>map_of\<close>.
  Timestamps (\<^verbatim>\<open>datetime.now().timestamp()\<close>) are exact reals handed to each operation
  by its caller; rounding of doubles is not modelled. Strings are byte strings and
  \<^verbatim>\<open>isdigit\<close> recognises the ASCII digits.
\<close>

type_synonym ws = nat

datatype json = JNull | JInt int | JStr string

type_synonym message = "(string \<times> json) list"

datatype py_error = KeyError | TypeError

definition dict_get :: "('k \<times> 'v) list \<Rightarrow> 'k \<Rightarrow> 'v \<Rightarrow> 'v" where
  "dict_get d k dflt = (case map_of d k of None \<Rightarrow> dflt | Some v \<Rightarrow> v)"

definition dict_in :: "'k \<Rightarrow> ('k \<times> 'v) list \<Rightarrow> bool" where
  "dict_in k d = (map_of d k \<noteq> None)"

definition dict_keys :: "('k \<times> 'v) list \<Rightarrow> 'k list" where
  "dict_keys d = map fst d"

definition unknown_client :: json where
  "unknown_client = JStr ''unknown_client''"

text \<open>The redaction placeholder, the two-character string U+533F U+540D, as UTF-8 bytes.\<close>

definition anonymous :: json where
  "anonymous = JStr [CHR 0xE5, CHR 0x8C, CHR 0xBF, CHR 0xE5, CHR 0x90, CHR 0x8D]"

subsection \<open>Strings: \<^verbatim>\<open>str\<close>, \<^verbatim>\<open>isdigit\<close>, \<^verbatim>\<open>zfill\<close>\<close>

definition isdigit :: "string \<Rightarrow> bool" where
  "isdigit s = (s \<noteq> [] \<and> list_all (\<lambda>c. c \<in> set ''0123456789'') s)"

definition zfill :: "nat \<Rightarrow> string \<Rightarrow> string" where
  "zfill width s =
     (if width \<le> length s then s
      else (case s of
              [] \<Rightarrow> replicate width (CHR ''0'')
            | c # cs \<Rightarrow>
                if c = CHR ''+'' \<or> c = CHR ''-''
                then c # replicate (width - length s) (CHR ''0'') @ cs
                else replicate (width - length s) (CHR ''0'') @ s))"

fun str_nat :: "nat \<Rightarrow> string" where
  "str_nat n =
     (if n < 10 then [''0123456789'' ! n]
      else str_nat (n div 10) @ [''0123456789'' ! (n mod 10)])"

definition str_int :: "int \<Rightarrow> string" where
  "str_int i = (if i < 0 then CHR ''-'' # str_nat (nat (- i)) else str_nat (nat i))"

definition py_str :: "json \<Rightarrow> string" where
  "py_str v = (case v of JNull \<Rightarrow> ''None'' | JInt i \<Rightarrow> str_int i | JStr s \<Rightarrow> s)"

definition normalize_room_id :: "json \<Rightarrow> string" where
  "normalize_room_id room_id =
     (case room_id of
        JInt i \<Rightarrow> zfill 6 (str_int i)
      | JStr s \<Rightarrow> (if isdigit s then zfill 6 s else s)
      | JNull \<Rightarrow> (if isdigit (py_str room_id) then zfill 6 (py_str room_id) else py_str room_id))"

section \<open>The connection manager\<close>

record manager =
  active_connections :: "(string \<times> ws list) list"
  client_ids :: "(ws \<times> json) list"
  connection_times :: "(ws \<times> real) list"
  last_connection_times :: "(string \<times> (json \<times> real) list) list"
  last_refresh_times :: "(string \<times> (json \<times> real) list) list"
  last_activity_times :: "(string \<times> (json \<times> real) list) list"
  safe_room_ids :: "json list"

text \<open>
  What an operation does to the outside: a frame delivered to a socket, a send that raised,
  and the log records of level info and above (debug records are left out).
\<close>

datatype log_event =
    LogDisconnect json string real
  | LogRefresh json string
  | LogConnect json string
  | LogBroadcastError json string
  | LogSessionTimeout json string
  | LogTimeoutSendError
  | LogClientTimeoutError
  | LogTimeoutCheckError
  | LogClientRegistered json string string
  | LogMessageReceived json json json
  | LogBroadcastException
  | LogWebSocketError json string

datatype effect = Sent ws message | SendFailed ws message | Log log_event

text \<open>\<^verbatim>\<open>[str(room).zfill(6) if isinstance(room, int) else room for room in self.safe_room_ids]\<close>\<close>

definition safe_rooms_str :: "manager \<Rightarrow> json list" where
  "safe_rooms_str m =
     map (\<lambda>room. case room of JInt i \<Rightarrow> JStr (zfill 6 (str_int i)) | _ \<Rightarrow> room) (safe_room_ids m)"

definition formatted :: "string \<Rightarrow> string" where
  "formatted r = (if isdigit r then zfill 6 r else r)"

text \<open>\<^verbatim>\<open>connect\<close>, after the handshake \<^verbatim>\<open>websocket.accept()\<close> has succeeded.\<close>

definition connect :: "ws \<Rightarrow> json \<Rightarrow> real \<Rightarrow> manager \<Rightarrow> manager" where
  "connect websocket room_id now m =
     (let normalized_room_id = normalize_room_id room_id;
          m1 = (if \<not> dict_in normalized_room_id (active_connections m)
                then m\<lparr>active_connections := AList.update normalized_room_id [] (active_connections m),
                       last_connection_times := AList.update normalized_room_id [] (last_connection_times m),
                       last_refresh_times := AList.update normalized_room_id [] (last_refresh_times m)\<rparr>
                else m)
      in m1\<lparr>active_connections :=
               AList.update normalized_room_id
                 (dict_get (active_connections m1) normalized_room_id [] @ [websocket])
                 (active_connections m1),
             client_ids := AList.update websocket unknown_client (client_ids m1),
             connection_times := AList.update websocket now (connection_times m1)\<rparr>)"

text \<open>
  \<^verbatim>\<open>disconnect\<close>. The room branch is lines 70 to 88: \<^verbatim>\<open>list.remove\<close> takes out the first
  occurrence; an emptied room loses its connection list and its last-connection and
  last-refresh maps; otherwise the disconnect time is recorded for an identified client.
\<close>

definition disconnect_room :: "ws \<Rightarrow> string \<Rightarrow> json \<Rightarrow> real \<Rightarrow> manager \<Rightarrow> manager" where
  "disconnect_room websocket normalized_room_id client_id connection_end m =
     (case map_of (active_connections m) normalized_room_id of
        None \<Rightarrow> m
      | Some conns \<Rightarrow>
          if websocket \<in> set conns then
            (let remaining = remove1 websocket conns in
             if remaining = [] then
               m\<lparr>active_connections := AList.delete normalized_room_id (active_connections m),
                 last_connection_times := AList.delete normalized_room_id (last_connection_times m),
                 last_refresh_times := AList.delete normalized_room_id (last_refresh_times m)\<rparr>
             else
               (let m' = m\<lparr>active_connections :=
                              AList.update normalized_room_id remaining (active_connections m)\<rparr>
                in case map_of (last_connection_times m') normalized_room_id of
                     None \<Rightarrow> m'
                   | Some stamps \<Rightarrow>
                       if client_id \<noteq> unknown_client
                       then m'\<lparr>last_connection_times :=
                                 AList.update normalized_room_id
                                   (AList.update client_id connection_end stamps)
                                   (last_connection_times m')\<rparr>
                       else m'))
          else m)"

definition disconnect :: "ws \<Rightarrow> json \<Rightarrow> real \<Rightarrow> manager \<Rightarrow> manager \<times> effect list" where
  "disconnect websocket room_id now m =
     (let normalized_room_id = normalize_room_id room_id;
          client_id = dict_get (client_ids m) websocket unknown_client;
          is_already_disconnected = (\<not> dict_in websocket (connection_times m));
          connection_start = dict_get (connection_times m) websocket 0;
          connection_end = now;
          duration = connection_end - connection_start;
          m1 = m\<lparr>connection_times := AList.delete websocket (connection_times m)\<rparr>;
          m2 = disconnect_room websocket normalized_room_id client_id connection_end m1;
          m3 = m2\<lparr>client_ids := AList.delete websocket (client_ids m2)\<rparr>;
          log_client_id =
            (if JStr normalized_room_id \<in> set (safe_rooms_str m3) then anonymous else client_id)
      in (m3,
          if 5 < duration \<and> \<not> is_already_disconnected
          then [Log (LogDisconnect log_client_id (formatted normalized_room_id) duration)]
          else []))"

text \<open>
  \<^verbatim>\<open>update_client_id\<close>. A subscript store into a room's map that does not exist raises
  \<^verbatim>\<open>KeyError\<close>; the state keeps what was written before the raise. The last three
  statements (lines 196 to 200) are \<open>record_connection\<close>.
\<close>

definition record_connection ::
  "string \<Rightarrow> json \<Rightarrow> real \<Rightarrow> manager \<Rightarrow> effect list \<Rightarrow> manager \<times> effect list \<times> py_error option" where
  "record_connection normalized_room_id client_id current_time m out =
     (case map_of (last_connection_times m) normalized_room_id of
        None \<Rightarrow> (m, out, Some KeyError)
      | Some stamps \<Rightarrow>
          (let m1 = m\<lparr>last_connection_times :=
                        AList.update normalized_room_id
                          (AList.update client_id current_time stamps) (last_connection_times m)\<rparr>
           in (m1\<lparr>last_activity_times :=
                    AList.update normalized_room_id
                      (AList.update client_id current_time
                         (dict_get (last_activity_times m1) normalized_room_id []))
                      (last_activity_times m1)\<rparr>,
               out, None)))"

definition update_client_id ::
  "ws \<Rightarrow> json \<Rightarrow> json \<Rightarrow> real \<Rightarrow> manager \<Rightarrow> manager \<times> effect list \<times> py_error option" where
  "update_client_id websocket client_id room_id now m =
     (let normalized_room_id = normalize_room_id room_id;
          m1 = m\<lparr>client_ids := AList.update websocket client_id (client_ids m)\<rparr>;
          current_time = now;
          last_connection =
            dict_get (dict_get (last_connection_times m1) normalized_room_id []) client_id 0;
          reconnect_time = current_time - last_connection;
          last_refresh =
            dict_get (dict_get (last_refresh_times m1) normalized_room_id []) client_id 0;
          since_last_refresh = current_time - last_refresh;
          log_client_id =
            (if JStr normalized_room_id \<in> set (safe_rooms_str m1) then anonymous else client_id)
      in if 0 < reconnect_time \<and> reconnect_time < 5 then
           (if 10 < since_last_refresh then
              (case map_of (last_refresh_times m1) normalized_room_id of
                 None \<Rightarrow>
                   (m1, [Log (LogRefresh log_client_id (formatted normalized_room_id))],
                    Some KeyError)
               | Some refreshes \<Rightarrow>
                   record_connection normalized_room_id client_id current_time
                     (m1\<lparr>last_refresh_times :=
                           AList.update normalized_room_id
                             (AList.update client_id current_time refreshes)
                             (last_refresh_times m1)\<rparr>)
                     [Log (LogRefresh log_client_id (formatted normalized_room_id))])
            else record_connection normalized_room_id client_id current_time m1 [])
         else record_connection normalized_room_id client_id current_time m1
                [Log (LogConnect log_client_id (formatted normalized_room_id))])"

definition update_activity_time :: "json \<Rightarrow> json \<Rightarrow> real \<Rightarrow> manager \<Rightarrow> manager" where
  "update_activity_time room_id client_id now m =
     (let normalized_room_id = normalize_room_id room_id;
          current_time = now
      in m\<lparr>last_activity_times :=
             AList.update normalized_room_id
               (AList.update client_id current_time
                  (dict_get (last_activity_times m) normalized_room_id []))
               (last_activity_times m)\<rparr>)"

text \<open>The membership of a room, as \<^verbatim>\<open>broadcast\<close> and the sweep read it.\<close>

definition snapshot :: "manager \<Rightarrow> string \<Rightarrow> ws list" where
  "snapshot m r = dict_get (active_connections m) r []"

section \<open>Broadcast\<close>

text \<open>
  The message handed to \<^verbatim>\<open>broadcast\<close> is a mutable object that the caller keeps, so the
  objects live in a store and a message is an address into it. \<^verbatim>\<open>message.copy()\<close> allocates
  a new object at the end of the store; \<^verbatim>\<open>message_copy['client_id'] = ...\<close> writes to that new
  object. \<^verbatim>\<open>send_json\<close> serialises the object as it is at that moment; whether the send
  raises is decided by \<open>fails\<close>. The result records the store, the final values of the
  local counters \<^verbatim>\<open>successful_sends\<close> and \<^verbatim>\<open>failed_sends\<close>, the effects, and the exception
  that left the function, if any.
\<close>

type_synonym heap = "message list"

text \<open>
  The content summary of lines 110 to 116 (and 381 to 387): slicing a value that is not a
  string raises \<^verbatim>\<open>TypeError\<close>.
\<close>

definition summarize :: "json \<Rightarrow> message \<Rightarrow> py_error + json" where
  "summarize message_type message =
     (if message_type = JStr ''text'' then
        (case dict_get message ''content'' (JStr []) of
           JStr s \<Rightarrow> Inr (JStr (take 50 s @ (if 50 < length s then ''...'' else [])))
         | _ \<Rightarrow> Inl TypeError)
      else if message_type = JStr ''file'' then
        Inr (dict_get message ''filename'' (JStr ''unknown_file''))
      else Inr (JStr []))"

record broadcast_result =
  store :: heap
  successful_sends :: nat
  failed_sends :: nat
  effects :: "effect list"
  raised :: "py_error option"

text \<open>
  \<^verbatim>\<open>broadcast\<close> is a coroutine: while it waits in \<^verbatim>\<open>await connection.send_json(...)\<close> the
  event loop runs other tasks, and they change the registry before the loop goes on. A
  \<open>step\<close> is what one such task does between two of its own suspensions (a \<^verbatim>\<open>disconnect\<close>,
  the registering part of \<^verbatim>\<open>connect\<close>, an \<^verbatim>\<open>update_client_id\<close>, an eviction of the
  sweep); an \<open>interleaving\<close> lists, for the first awaited send, the second, and so on, the
  steps that run during it. A send beyond the end of the interleaving is not interrupted.

  The \<^verbatim>\<open>for\<close> loop of line 126 iterates the list object
  \<^verbatim>\<open>self.active_connections[normalized_room_id]\<close> itself, by position: \<^verbatim>\<open>connect\<close> appends
  to that object and \<^verbatim>\<open>disconnect\<close> removes from it, so elements move under the loop. When
  the last connection of the room goes, \<^verbatim>\<open>disconnect\<close> deletes the dictionary entry and the
  loop is left with the emptied object; a list that a later \<^verbatim>\<open>connect\<close> creates for the room
  is another object, which the loop does not see. The flag paired with the registry says
  that the entry of the room has been in the dictionary ever since the loop started, and
  \<open>iterated\<close> is the content of the list object that the loop holds.
\<close>

type_synonym step = "manager \<Rightarrow> manager"

type_synonym interleaving = "step list list"

fun run_watching :: "string \<Rightarrow> step list \<Rightarrow> manager \<times> bool \<Rightarrow> manager \<times> bool" where
  "run_watching r [] st = st"
| "run_watching r (s # others) st =
     run_watching r others
       (s (fst st), snd st \<and> dict_in r (active_connections (s (fst st))))"

definition iterated :: "manager \<times> bool \<Rightarrow> string \<Rightarrow> ws list" where
  "iterated st r = (if snd st then snapshot (fst st) r else [])"

text \<open>
  The body of the \<^verbatim>\<open>for\<close> loop, lines 127 to 144, for the element \<open>connection\<close>: the label
  for the error record is read and the payload is built before the send is awaited.
\<close>

definition send_to ::
  "manager \<Rightarrow> (ws \<Rightarrow> bool) \<Rightarrow> string \<Rightarrow> nat \<Rightarrow> ws \<Rightarrow> broadcast_result \<Rightarrow> broadcast_result" where
  "send_to m fails normalized_room_id message connection acc =
     (let current_client_id = dict_get (client_ids m) connection unknown_client;
          h = store acc;
          redact = (JStr normalized_room_id \<in> set (safe_room_ids m)
                    \<and> dict_in ''client_id'' (h ! message));
          message_copy = length h;
          h' = (if redact
                then (h @ [h ! message])
                       [message_copy := AList.update ''client_id'' anonymous (h ! message)]
                else h);
          payload = (if redact then h' ! message_copy else h' ! message)
      in if fails connection
         then acc\<lparr>store := h',
                  failed_sends := failed_sends acc + 1,
                  effects := effects acc @
                    [SendFailed connection payload,
                     Log (LogBroadcastError current_client_id normalized_room_id)]\<rparr>
         else acc\<lparr>store := h',
                  successful_sends := successful_sends acc + 1,
                  effects := effects acc @ [Sent connection payload]\<rparr>)"

text \<open>
  The loop, with the position \<open>i\<close> of the list iterator: it ends when \<open>i\<close> has reached the
  current length of the list. The steps of the other tasks run while the send is awaited.
\<close>

function broadcast_loop ::
  "(ws \<Rightarrow> bool) \<Rightarrow> string \<Rightarrow> nat \<Rightarrow> interleaving \<Rightarrow> nat \<Rightarrow> manager \<times> bool \<Rightarrow> broadcast_result
     \<Rightarrow> (manager \<times> bool) \<times> broadcast_result" where
  "broadcast_loop fails normalized_room_id message env i st acc =
     (if i < length (iterated st normalized_room_id) then
        broadcast_loop fails normalized_room_id message (tl env) (i + 1)
          (run_watching normalized_room_id (case env of [] \<Rightarrow> [] | others # later \<Rightarrow> others) st)
          (send_to (fst st) fails normalized_room_id message
             (iterated st normalized_room_id ! i) acc)
      else (st, acc))"
  by pat_completeness auto

termination
proof (relation "measures
    [\<lambda>(fails, r, message, env, i, st, acc). length env,
     \<lambda>(fails, r, message, env, i, st, acc). length (iterated st r) - i]")
  show "wf (measures
    [\<lambda>(fails, r, message, env, i, st, acc). length env,
     \<lambda>(fails, r, message, env, i, st, acc). length (iterated st r) - i])"
    by simp
next
  fix fails :: "ws \<Rightarrow> bool" and normalized_room_id :: string and message :: nat
    and env :: interleaving and i :: nat and st :: "manager \<times> bool" and acc :: broadcast_result
  assume "i < length (iterated st normalized_room_id)"
  then show "((fails, normalized_room_id, message, tl env, i + 1,
       run_watching normalized_room_id (case env of [] \<Rightarrow> [] | others # later \<Rightarrow> others) st,
       send_to (fst st) fails normalized_room_id message (iterated st normalized_room_id ! i) acc),
      (fails, normalized_room_id, message, env, i, st, acc))
     \<in> measures
        [\<lambda>(fails, r, message, env, i, st, acc). length env,
         \<lambda>(fails, r, message, env, i, st, acc). length (iterated st r) - i]"
    by (cases env) auto
qed

text \<open>
  \<^verbatim>\<open>broadcast\<close>, in an interleaving \<open>env\<close>. After the loop, line 147 reads
  \<^verbatim>\<open>len(self.active_connections[normalized_room_id])\<close>, which raises \<^verbatim>\<open>KeyError\<close> when the
  room has been deleted meanwhile; nothing in \<^verbatim>\<open>broadcast\<close> catches it.
\<close>

definition broadcast ::
  "manager \<Rightarrow> interleaving \<Rightarrow> (ws \<Rightarrow> bool) \<Rightarrow> json \<Rightarrow> nat \<Rightarrow> heap \<Rightarrow> broadcast_result" where
  "broadcast m env fails room_id message h =
     (let normalized_room_id = normalize_room_id room_id;
          message_type = dict_get (h ! message) ''type'' (JStr ''unknown'');
          start = \<lparr>store = h, successful_sends = 0, failed_sends = 0, effects = [], raised = None\<rparr>
      in case summarize message_type (h ! message) of
           Inl e \<Rightarrow> start\<lparr>raised := Some e\<rparr>
         | Inr content_summary \<Rightarrow>
             if dict_in normalized_room_id (active_connections m) then
               (let (st, res) =
                      broadcast_loop fails normalized_room_id message env 0 (m, True) start
                in if dict_in normalized_room_id (active_connections (fst st)) then res
                   else res\<lparr>raised := Some KeyError\<rparr>)
             else start)"

section \<open>The receive loop of \<^verbatim>\<open>websocket_endpoint\<close>\<close>

text \<open>
  One iteration of the \<^verbatim>\<open>while True\<close> loop for a received frame \<open>data\<close>, after
  \<^verbatim>\<open>receive_json\<close> returned it. An exception that leaves the loop is caught by the
  handlers of lines 455 to 466, which call \<^verbatim>\<open>disconnect\<close>; the connection is then closed.
  The handler modelled is the one for \<^verbatim>\<open>Exception\<close> (line 460), which also logs the error;
  the one for \<^verbatim>\<open>WebSocketDisconnect\<close> differs from it by that log record only.
  All clock reads of one iteration return \<open>now\<close>. The iteration is followed on its own:
  its \<^verbatim>\<open>broadcast\<close> runs in the empty interleaving.
\<close>

datatype loop_status = Open | Closed

definition close_on_error ::
  "ws \<Rightarrow> string \<Rightarrow> real \<Rightarrow> manager \<Rightarrow> effect list \<Rightarrow> manager \<times> effect list \<times> loop_status" where
  "close_on_error websocket room_id now m out =
     (let client_id = dict_get (client_ids m) websocket unknown_client;
          (m', out') = disconnect websocket (JStr room_id) now m
      in (m', out @ [Log (LogWebSocketError client_id (formatted room_id))] @ out', Closed))"

text \<open>Lines 425 to 454: the \<^verbatim>\<open>try\<close> block that follows the \<^verbatim>\<open>if/elif/else\<close> chain.\<close>

definition broadcast_frame ::
  "string \<Rightarrow> message \<Rightarrow> json \<Rightarrow> json \<Rightarrow> json \<Rightarrow> (ws \<Rightarrow> bool) \<Rightarrow> manager \<Rightarrow> effect list
     \<Rightarrow> manager \<times> effect list \<times> loop_status" where
  "broadcast_frame room_id data message_type msg_content_summary client_id fails m out =
     (let res = broadcast m [] fails (JStr room_id) 0 [data]
      in case raised res of
           None \<Rightarrow>
             (m, out @ effects res
                   @ [Log (LogMessageReceived message_type msg_content_summary client_id)], Open)
         | Some e \<Rightarrow>
             (m, out @ effects res
                   @ [Log LogBroadcastException,
                      Log (LogMessageReceived message_type msg_content_summary client_id)], Open))"

definition handle_frame ::
  "ws \<Rightarrow> string \<Rightarrow> message \<Rightarrow> real \<Rightarrow> (ws \<Rightarrow> bool) \<Rightarrow> manager
     \<Rightarrow> manager \<times> effect list \<times> loop_status" where
  "handle_frame websocket room_id data now fails m =
     (let message_type = dict_get data ''type'' JNull in
      case summarize message_type data of
        Inl e \<Rightarrow> close_on_error websocket room_id now m []
      | Inr msg_content_summary \<Rightarrow>
          (case map_of data ''type'' of
             None \<Rightarrow> close_on_error websocket room_id now m []
           | Some ty \<Rightarrow>
               if ty = JStr ''register_client'' then
                 (case map_of data ''client_id'' of
                    None \<Rightarrow> close_on_error websocket room_id now m []
                  | Some client_id \<Rightarrow>
                      (let register_room_id_raw = dict_get data ''room_id'' (JStr room_id);
                           register_room_id =
                             (case register_room_id_raw of
                                JInt i \<Rightarrow> JStr (zfill 6 (str_int i))
                              | _ \<Rightarrow> register_room_id_raw);
                           log_client_id =
                             (if JStr room_id \<in> set (safe_rooms_str m) then anonymous
                              else client_id);
                           (m1, out1, err) =
                             update_client_id websocket client_id register_room_id now m
                       in case err of
                            Some e \<Rightarrow> close_on_error websocket room_id now m1 out1
                          | None \<Rightarrow>
                              broadcast_frame room_id data message_type msg_content_summary
                                client_id fails
                                (update_activity_time (JStr room_id) client_id now m1)
                                (out1 @ [Log (LogClientRegistered log_client_id room_id
                                               (py_str register_room_id))])))
               else if ty = JStr ''ping'' then
                 (let pong = [(''type'', JStr ''pong''),
                              (''timestamp'', dict_get data ''timestamp'' JNull)]
                  in if fails websocket
                     then close_on_error websocket room_id now m [SendFailed websocket pong]
                     else
                       (let client_id = dict_get (client_ids m) websocket unknown_client;
                            m1 = (if client_id \<noteq> unknown_client
                                  then update_activity_time (JStr room_id) client_id now m
                                  else m)
                        in broadcast_frame room_id data message_type msg_content_summary
                             client_id fails m1 [Sent websocket pong]))
               else
                 (let client_id = dict_get (client_ids m) websocket unknown_client;
                      m1 = (if client_id \<noteq> unknown_client
                            then update_activity_time (JStr room_id) client_id now m
                            else m)
                  in broadcast_frame room_id data message_type msg_content_summary
                       client_id fails m1 [])))"

section \<open>The idle sweep\<close>

text \<open>
  One pass of the \<^verbatim>\<open>while True\<close> loop of \<^verbatim>\<open>check_timeout\<close> (the loop itself sleeps 60
  seconds and repeats for ever). The clock is read once per pass; the \<^verbatim>\<open>disconnect\<close> it
  calls is given the same time.
\<close>

definition timeout_seconds :: real where
  "timeout_seconds = 3600"

definition session_timeout_message :: message where
  "session_timeout_message =
     [(''type'', JStr ''session_timeout''),
      (''message'', JStr [CHR 0xE4, CHR 0xBC, CHR 0x9A, CHR 0xE8, CHR 0xAF, CHR 0x9D, CHR 0xE5,
         CHR 0xB7, CHR 0xB2, CHR 0xE8, CHR 0xB6, CHR 0x85, CHR 0xE6, CHR 0x97, CHR 0xB6, CHR 0xEF,
         CHR 0xBC, CHR 0x8C, CHR 0xE8, CHR 0xAF, CHR 0xB7, CHR 0xE9, CHR 0x87, CHR 0x8D, CHR 0xE6,
         CHR 0x96, CHR 0xB0, CHR 0xE7, CHR 0x99, CHR 0xBB, CHR 0xE5, CHR 0xBD, CHR 0x95])]"

text \<open>Lines 234 to 238: the first binding of the label whose socket is in the room.\<close>

definition find_websocket :: "manager \<Rightarrow> string \<Rightarrow> json \<Rightarrow> ws option" where
  "find_websocket m room_id client_id =
     map_option fst
       (find (\<lambda>(websocket, conn_client_id).
                 conn_client_id = client_id
                 \<and> dict_in room_id (active_connections m)
                 \<and> websocket \<in> set (dict_get (active_connections m) room_id []))
          (client_ids m))"

text \<open>Lines 260 to 261 and 266 to 267.\<close>

definition delete_activity :: "string \<Rightarrow> json \<Rightarrow> manager \<Rightarrow> manager" where
  "delete_activity room_id client_id m =
     (case map_of (last_activity_times m) room_id of
        None \<Rightarrow> m
      | Some acts \<Rightarrow>
          if dict_in client_id acts
          then m\<lparr>last_activity_times :=
                   AList.update room_id (AList.delete client_id acts) (last_activity_times m)\<rparr>
          else m)"

text \<open>
  The body of the inner \<^verbatim>\<open>for client_id\<close> loop, with its \<^verbatim>\<open>try/except\<close>: a
  \<^verbatim>\<open>KeyError\<close> from \<^verbatim>\<open>self.last_activity_times[room_id]\<close> is caught, logged, and the loop
  goes on.
\<close>

definition check_client ::
  "string \<Rightarrow> json \<Rightarrow> real \<Rightarrow> (ws \<Rightarrow> bool) \<Rightarrow> manager \<Rightarrow> manager \<times> effect list" where
  "check_client room_id client_id current_time fails m =
     (case map_of (last_activity_times m) room_id of
        None \<Rightarrow> (m, [Log LogClientTimeoutError])
      | Some acts \<Rightarrow>
          (let last_activity = dict_get acts client_id 0 in
           if timeout_seconds < current_time - last_activity then
             (case find_websocket m room_id client_id of
                Some websocket_to_remove \<Rightarrow>
                  (let log_client_id =
                         (if JStr room_id \<in> set (safe_rooms_str m) then anonymous else client_id);
                       notify =
                         (if fails websocket_to_remove
                          then [SendFailed websocket_to_remove session_timeout_message,
                                Log LogTimeoutSendError]
                          else [Sent websocket_to_remove session_timeout_message,
                                Log (LogSessionTimeout log_client_id (formatted room_id))]);
                       (m', out) =
                         disconnect websocket_to_remove (JStr room_id) current_time
                           (delete_activity room_id client_id m)
                   in (m', notify @ out))
              | None \<Rightarrow> (delete_activity room_id client_id m, []))
           else (m, [])))"

fun check_clients ::
  "string \<Rightarrow> json list \<Rightarrow> real \<Rightarrow> (ws \<Rightarrow> bool) \<Rightarrow> manager \<Rightarrow> manager \<times> effect list" where
  "check_clients room_id [] current_time fails m = (m, [])"
| "check_clients room_id (client_id # rest) current_time fails m =
     (let (m1, out1) = check_client room_id client_id current_time fails m;
          (m2, out2) = check_clients room_id rest current_time fails m1
      in (m2, out1 @ out2))"

fun check_rooms ::
  "string list \<Rightarrow> real \<Rightarrow> (ws \<Rightarrow> bool) \<Rightarrow> manager \<Rightarrow> manager \<times> effect list" where
  "check_rooms [] current_time fails m = (m, [])"
| "check_rooms (room_id # rest) current_time fails m =
     (case map_of (last_activity_times m) room_id of
        None \<Rightarrow> check_rooms rest current_time fails m
      | Some acts \<Rightarrow>
          (let (m1, out1) = check_clients room_id (dict_keys acts) current_time fails m;
               (m2, out2) = check_rooms rest current_time fails m1
           in (m2, out1 @ out2)))"

text \<open>Lines 275 to 278: rooms whose activity map is empty are dropped.\<close>

fun cleanup_rooms :: "string list \<Rightarrow> manager \<Rightarrow> manager \<times> effect list" where
  "cleanup_rooms [] m = (m, [])"
| "cleanup_rooms (room_id # rest) m =
     (case map_of (last_activity_times m) room_id of
        None \<Rightarrow> (m, [Log LogTimeoutCheckError])
      | Some acts \<Rightarrow>
          cleanup_rooms rest
            (if acts = []
             then m\<lparr>last_activity_times := AList.delete room_id (last_activity_times m)\<rparr>
             else m))"

text \<open>
  The pass. A \<^verbatim>\<open>KeyError\<close> in the cleanup loop would be caught by the outer \<^verbatim>\<open>except\<close>,
  which logs it and ends the pass.
\<close>

definition check_timeout_pass ::
  "real \<Rightarrow> (ws \<Rightarrow> bool) \<Rightarrow> manager \<Rightarrow> manager \<times> effect list" where
  "check_timeout_pass current_time fails m =
     (let (m1, out1) = check_rooms (dict_keys (last_activity_times m)) current_time fails m;
          (m2, out2) = cleanup_rooms (dict_keys (last_activity_times m1)) m1
      in (m2, out1 @ out2))"

section \<open>Observations, predicates and traces used in the statements\<close>

text \<open>\<^verbatim>\<open>ConnectionManager.__init__\<close>, with the configured list \<^verbatim>\<open>safe_room_ids\<close>.\<close>

definition new_manager :: "json list \<Rightarrow> manager" where
  "new_manager safe =
     \<lparr>active_connections = [], client_ids = [], connection_times = [],
      last_connection_times = [], last_refresh_times = [], last_activity_times = [],
      safe_room_ids = safe\<rparr>"

subsection \<open>Reading the registry\<close>

text \<open>
  The time recorded for a label in a room by one of the three timing maps: as an optional
  entry, and as \<^verbatim>\<open>d.get(room, {}).get(client_id, 0)\<close> reads it.
\<close>

definition entry_of ::
  "(string \<times> (json \<times> real) list) list \<Rightarrow> string \<Rightarrow> json \<Rightarrow> real option" where
  "entry_of d r c = (case map_of d r of None \<Rightarrow> None | Some inner \<Rightarrow> map_of inner c)"

definition lookup_time ::
  "(string \<times> (json \<times> real) list) list \<Rightarrow> string \<Rightarrow> json \<Rightarrow> real" where
  "lookup_time d r c = dict_get (dict_get d r []) c 0"

text \<open>
  The sockets bound to a label that are members of a room, in the order of \<^verbatim>\<open>client_ids\<close>:
  the live connections of the label that the sweep looks for.
\<close>

definition bound_in :: "manager \<Rightarrow> string \<Rightarrow> json \<Rightarrow> ws list" where
  "bound_in m r c =
     map fst (filter (\<lambda>p. snd p = c \<and> fst p \<in> set (snapshot m r)) (client_ids m))"

text \<open>The label that the log records show: \<^verbatim>\<open>log_client_id\<close>.\<close>

definition shown_label :: "manager \<Rightarrow> string \<Rightarrow> json \<Rightarrow> json" where
  "shown_label m r c = (if JStr r \<in> set (safe_rooms_str m) then anonymous else c)"

subsection \<open>Reading the effects\<close>

text \<open>
  The sockets a send was attempted on, the sockets a send reached, and the payloads of the
  attempts, each in order.
\<close>

fun attempts :: "effect list \<Rightarrow> ws list" where
  "attempts [] = []"
| "attempts (Sent w msg # out) = w # attempts out"
| "attempts (SendFailed w msg # out) = w # attempts out"
| "attempts (Log e # out) = attempts out"

fun delivered :: "effect list \<Rightarrow> ws list" where
  "delivered [] = []"
| "delivered (Sent w msg # out) = w # delivered out"
| "delivered (SendFailed w msg # out) = delivered out"
| "delivered (Log e # out) = delivered out"

fun payloads :: "effect list \<Rightarrow> message list" where
  "payloads [] = []"
| "payloads (Sent w msg # out) = msg # payloads out"
| "payloads (SendFailed w msg # out) = msg # payloads out"
| "payloads (Log e # out) = payloads out"

fun is_refresh_notice :: "effect \<Rightarrow> bool" where
  "is_refresh_notice (Log (LogRefresh c r)) = True"
| "is_refresh_notice e = False"

definition refresh_notices :: "effect list \<Rightarrow> nat" where
  "refresh_notices out = length (filter is_refresh_notice out)"


subsection \<open>Predicates\<close>

text \<open>Every room of the connection map has a connection.\<close>

definition rooms_nonempty :: "manager \<Rightarrow> bool" where
  "rooms_nonempty m = list_all (\<lambda>p. snd p \<noteq> []) (active_connections m)"

text \<open>The socket is in no room's membership; no room other than \<open>r\<close> lists the socket.\<close>

definition absent :: "ws \<Rightarrow> manager \<Rightarrow> bool" where
  "absent w m = list_all (\<lambda>r. w \<notin> set (snapshot m r)) (dict_keys (active_connections m))"

definition only_in :: "ws \<Rightarrow> string \<Rightarrow> manager \<Rightarrow> bool" where
  "only_in w r m = list_all (\<lambda>p. fst p = r \<or> w \<notin> set (snd p)) (active_connections m)"

text \<open>
  A room of the connection map has its last-connection and last-refresh maps (\<^verbatim>\<open>connect\<close>
  creates the three together and \<^verbatim>\<open>disconnect\<close> deletes them together): for one room, and
  for all.
\<close>

definition timing_present :: "manager \<Rightarrow> string \<Rightarrow> bool" where
  "timing_present m r =
     (if dict_in r (active_connections m)
      then dict_in r (last_connection_times m) \<and> dict_in r (last_refresh_times m)
      else True)"

definition timing_consistent :: "manager \<Rightarrow> bool" where
  "timing_consistent m =
     list_all (\<lambda>p. dict_in (fst p) (last_connection_times m)
                  \<and> dict_in (fst p) (last_refresh_times m))
       (active_connections m)"

text \<open>A message whose \<^verbatim>\<open>content\<close> is a string when its \<^verbatim>\<open>type\<close> is \<^verbatim>\<open>text\<close>.\<close>

definition text_content_ok :: "message \<Rightarrow> bool" where
  "text_content_ok msg =
     (if dict_get msg ''type'' (JStr ''unknown'') = JStr ''text''
      then (case dict_get msg ''content'' (JStr []) of JStr s \<Rightarrow> True | _ \<Rightarrow> False)
      else True)"

text \<open>
  No step of the interleaving changes the membership of the room: each one, run on the
  registry that the steps before it have left, leaves the room with the same list.
\<close>

fun membership_stable :: "string \<Rightarrow> interleaving \<Rightarrow> manager \<Rightarrow> bool" where
  "membership_stable r [] m = True"
| "membership_stable r ([] # env) m = membership_stable r env m"
| "membership_stable r ((s # others) # env) m =
     (snapshot (s m) r = snapshot m r \<and> membership_stable r (others # env) (s m))"

text \<open>The label has a recorded refresh notice in the room, at \<open>t0\<close> or later.\<close>

definition refresh_at_least :: "manager \<Rightarrow> string \<Rightarrow> json \<Rightarrow> real \<Rightarrow> bool" where
  "refresh_at_least m r c t0 =
     (case entry_of (last_refresh_times m) r c of None \<Rightarrow> False | Some t \<Rightarrow> t0 \<le> t)"

text \<open>What a sweep at time \<open>now\<close> leaves of an activity entry.\<close>

definition fresh_part :: "real \<Rightarrow> real option \<Rightarrow> real option" where
  "fresh_part now e =
     (case e of None \<Rightarrow> None
      | Some t \<Rightarrow> if timeout_seconds < now - t then None else Some t)"

subsection \<open>Operations and traces\<close>

text \<open>The registry operations, each run at a given clock reading, and sequences of them.\<close>

datatype operation =
    Connect ws json
  | Disconnect ws json
  | Identify ws json json
  | UpdateActivity json json
  | Sweep "ws \<Rightarrow> bool"

fun apply_op :: "real \<Rightarrow> operation \<Rightarrow> manager \<Rightarrow> manager" where
  "apply_op now (Connect websocket room_id) m = connect websocket room_id now m"
| "apply_op now (Disconnect websocket room_id) m = fst (disconnect websocket room_id now m)"
| "apply_op now (Identify websocket client_id room_id) m =
     fst (update_client_id websocket client_id room_id now m)"
| "apply_op now (UpdateActivity room_id client_id) m = update_activity_time room_id client_id now m"
| "apply_op now (Sweep fails) m = fst (check_timeout_pass now fails m)"

fun run :: "(real \<times> operation) list \<Rightarrow> manager \<Rightarrow> manager" where
  "run [] m = m"
| "run ((now, op) # rest) m = run rest (apply_op now op m)"

definition connects :: "ws \<Rightarrow> operation \<Rightarrow> bool" where
  "connects websocket op = (case op of Connect w r \<Rightarrow> w = websocket | _ \<Rightarrow> False)"

text \<open>The room is in the connection map before and after every operation of the trace.\<close>

fun keeps_room :: "string \<Rightarrow> (real \<times> operation) list \<Rightarrow> manager \<Rightarrow> bool" where
  "keeps_room r [] m = True"
| "keeps_room r ((now, op) # rest) m =
     (dict_in r (active_connections m) \<and> dict_in r (active_connections (apply_op now op m))
      \<and> keeps_room r rest (apply_op now op m))"

subsection \<open>Concrete registries\<close>

text \<open>Room 123456 holding socket 1, then sockets 1 and 2, then 1, 2 and 3, connected at time 1000.\<close>

definition one_in_room :: "json list \<Rightarrow> manager" where
  "one_in_room safe = connect 1 (JStr ''123456'') 1000 (new_manager safe)"

definition two_in_room :: "json list \<Rightarrow> manager" where
  "two_in_room safe = connect 2 (JStr ''123456'') 1000 (one_in_room safe)"

definition three_in_room :: "json list \<Rightarrow> manager" where
  "three_in_room safe = connect 3 (JStr ''123456'') 1000 (two_in_room safe)"

definition alice_text :: message where
  "alice_text =
     [(''type'', JStr ''text''), (''content'', JStr ''hi''), (''client_id'', JStr ''alice'')]"

text \<open>
  Socket 1 identifies as alice at 1001. It is disconnected at 1100 while socket 2 stays, and
  the page comes back on socket 3 (\<open>refresh_ready\<close>), identifies at 1102, is reloaded on
  socket 4 at 1103 (\<open>after_first_refresh\<close>), identifies at 1104 and is reloaded on socket 5
  at 1105 (\<open>after_second_refresh\<close>).
\<close>

definition alice_identified :: manager where
  "alice_identified =
     fst (update_client_id 1 (JStr ''alice'') (JStr ''123456'') 1001 (two_in_room []))"

definition refresh_ready :: manager where
  "refresh_ready =
     run [(1100, Disconnect 1 (JStr ''123456'')), (1101, Connect 3 (JStr ''123456''))]
       alice_identified"

definition after_first_refresh :: manager where
  "after_first_refresh =
     run [(1102, Identify 3 (JStr ''alice'') (JStr ''123456'')),
          (1103, Disconnect 3 (JStr ''123456'')),
          (1103, Connect 4 (JStr ''123456''))]
       refresh_ready"

definition after_second_refresh :: manager where
  "after_second_refresh =
     run [(1104, Identify 4 (JStr ''alice'') (JStr ''123456'')),
          (1105, Disconnect 4 (JStr ''123456'')),
          (1105, Connect 5 (JStr ''123456''))]
       after_first_refresh"

text \<open>
  Socket 1 alone in the room identifies as alice at 1001 (\<open>alone_identified\<close>) and again at
  1003; it leaves at 1004, so the room is dropped; socket 2 connects and identifies as alice
  at 1005 (\<open>alone_reset\<close>).
\<close>

definition alone_identified :: manager where
  "alone_identified =
     fst (update_client_id 1 (JStr ''alice'') (JStr ''123456'') 1001 (one_in_room []))"

definition alone_reset :: manager where
  "alone_reset =
     run [(1003, Identify 1 (JStr ''alice'') (JStr ''123456'')),
          (1004, Disconnect 1 (JStr ''123456'')),
          (1005, Connect 2 (JStr ''123456'')),
          (1005, Identify 2 (JStr ''alice'') (JStr ''123456''))]
       alone_identified"


section \<open>Proofs\<close>

subsection \<open>Dictionaries\<close>

lemma list_all_update:
  "P (k, v) \<Longrightarrow> list_all P al \<Longrightarrow> list_all P (AList.update k v al)"
  by (induction al) auto

lemma list_all_delete: "list_all P al \<Longrightarrow> list_all P (AList.delete k al)"
  by (induction al) auto

lemma list_all_map_of: "map_of al k = Some v \<Longrightarrow> list_all P al \<Longrightarrow> P (k, v)"
  by (auto simp: list_all_iff dest: map_of_SomeD)

subsection \<open>Rooms of the connection map are never empty\<close>

lemma connect_nonempty: "rooms_nonempty m \<Longrightarrow> rooms_nonempty (connect w r t m)"
  by (simp add: rooms_nonempty_def connect_def Let_def list_all_update)

lemma disconnect_room_nonempty:
  "rooms_nonempty m \<Longrightarrow> rooms_nonempty (disconnect_room w r c t m)"
  by (auto simp: rooms_nonempty_def disconnect_room_def Let_def list_all_update list_all_delete
      split: option.splits)

lemma disconnect_nonempty: "rooms_nonempty m \<Longrightarrow> rooms_nonempty (fst (disconnect w r t m))"
  using disconnect_room_nonempty[of "m\<lparr>connection_times := AList.delete w (connection_times m)\<rparr>"]
  by (simp add: disconnect_def Let_def rooms_nonempty_def)

lemma record_connection_active:
  "active_connections (fst (record_connection r c t m out)) = active_connections m"
  by (simp add: record_connection_def Let_def split: option.splits)

lemma update_client_id_active:
  "active_connections (fst (update_client_id w c r t m)) = active_connections m"
  by (simp add: update_client_id_def Let_def record_connection_active split: option.splits)

lemma update_activity_time_active:
  "active_connections (update_activity_time r c t m) = active_connections m"
  by (simp add: update_activity_time_def Let_def)

lemma delete_activity_active:
  "active_connections (delete_activity r c m) = active_connections m"
  by (simp add: delete_activity_def split: option.splits)

lemma check_client_nonempty:
  "rooms_nonempty m \<Longrightarrow> rooms_nonempty (fst (check_client r c t fails m))"
proof -
  assume inv: "rooms_nonempty m"
  have d: "rooms_nonempty (delete_activity r c m)"
    using inv by (simp add: rooms_nonempty_def delete_activity_active)
  show ?thesis
    using inv d disconnect_nonempty[OF d]
    by (auto simp: check_client_def Let_def split_beta split: option.splits)
qed

lemma check_clients_nonempty:
  "rooms_nonempty m \<Longrightarrow> rooms_nonempty (fst (check_clients r cs t fails m))"
proof (induction cs arbitrary: m)
  case Nil
  then show ?case by simp
next
  case (Cons c cs)
  from Cons.prems have "rooms_nonempty (fst (check_client r c t fails m))"
    by (rule check_client_nonempty)
  from Cons.IH[OF this] show ?case
    by (simp add: split_beta Let_def)
qed

lemma check_rooms_nonempty:
  "rooms_nonempty m \<Longrightarrow> rooms_nonempty (fst (check_rooms rs t fails m))"
proof (induction rs arbitrary: m)
  case Nil
  then show ?case by simp
next
  case (Cons r rs)
  show ?case
  proof (cases "map_of (last_activity_times m) r")
    case None
    with Cons show ?thesis by simp
  next
    case (Some acts)
    from Cons.prems have "rooms_nonempty (fst (check_clients r (dict_keys acts) t fails m))"
      by (rule check_clients_nonempty)
    from Cons.IH[OF this] Some show ?thesis
      by (simp add: split_beta Let_def)
  qed
qed

lemma cleanup_rooms_active:
  "active_connections (fst (cleanup_rooms rs m)) = active_connections m"
  by (induction rs arbitrary: m) (auto split: option.splits)

lemma check_timeout_pass_nonempty:
  "rooms_nonempty m \<Longrightarrow> rooms_nonempty (fst (check_timeout_pass t fails m))"
  using check_rooms_nonempty[of m "dict_keys (last_activity_times m)" t fails]
  by (simp add: check_timeout_pass_def split_beta Let_def rooms_nonempty_def cleanup_rooms_active)

lemma apply_op_nonempty:
  assumes inv: "rooms_nonempty m"
  shows "rooms_nonempty (apply_op t op m)"
proof (cases op)
  case (Identify w c r)
  then show ?thesis
    using inv by (simp add: rooms_nonempty_def update_client_id_active)
next
  case (UpdateActivity r c)
  then show ?thesis
    using inv by (simp add: rooms_nonempty_def update_activity_time_active)
qed (simp_all add: inv connect_nonempty disconnect_nonempty check_timeout_pass_nonempty)

lemma disconnect_last:
  assumes "map_of (active_connections m) (normalize_room_id r) = Some [w]"
  shows "map_of (active_connections (fst (disconnect w r t m))) (normalize_room_id r) = None
       \<and> map_of (last_connection_times (fst (disconnect w r t m))) (normalize_room_id r) = None
       \<and> map_of (last_refresh_times (fst (disconnect w r t m))) (normalize_room_id r) = None"
  using assms
  by (simp add: disconnect_def Let_def disconnect_room_def AList.delete_conv')

lemma disconnect_activity:
  "last_activity_times (fst (disconnect w r t m)) = last_activity_times m"
  by (simp add: disconnect_def Let_def disconnect_room_def split: option.splits)

subsection \<open>Membership, disconnect and traces\<close>

lemma dict_get_update:
  "dict_get (AList.update k v al) k' d = (if k' = k then v else dict_get al k' d)"
  by (simp add: dict_get_def AList.update_conv')

lemma dict_get_delete:
  "dict_get (AList.delete k al) k' d = (if k' = k then d else dict_get al k' d)"
  by (simp add: dict_get_def AList.delete_conv')

lemma dict_in_keys: "dict_in k d \<longleftrightarrow> k \<in> fst ` set d"
  by (simp add: dict_in_def map_of_eq_None_iff)

lemma dict_in_delete: "\<not> dict_in k (AList.delete k d)"
  by (simp add: dict_in_def AList.delete_conv')

lemma disconnect_room_frame:
  "connection_times (disconnect_room w r c t m) = connection_times m"
  "client_ids (disconnect_room w r c t m) = client_ids m"
  "last_activity_times (disconnect_room w r c t m) = last_activity_times m"
  "safe_room_ids (disconnect_room w r c t m) = safe_room_ids m"
  by (simp_all add: disconnect_room_def Let_def split: option.splits)

lemma snapshot_disconnect_room:
  "snapshot (disconnect_room w r c t m) r' =
     (if r' = r \<and> w \<in> set (snapshot m r) then remove1 w (snapshot m r) else snapshot m r')"
proof (cases "map_of (active_connections m) r")
  case None
  then show ?thesis
    by (simp add: snapshot_def disconnect_room_def dict_get_def)
next
  case (Some conns)
  then have s: "snapshot m r = conns"
    by (simp add: snapshot_def dict_get_def)
  show ?thesis
  proof (cases "w \<in> set conns")
    case False
    with Some s show ?thesis
      by (simp add: disconnect_room_def)
  next
    case True
    show ?thesis
    proof (cases "remove1 w conns = []")
      case True
      with \<open>w \<in> set conns\<close> Some s show ?thesis
        by (simp add: disconnect_room_def snapshot_def dict_get_delete)
    next
      case False
      with \<open>w \<in> set conns\<close> Some s show ?thesis
        by (simp add: disconnect_room_def snapshot_def dict_get_update Let_def
            split: option.splits)
    qed
  qed
qed

lemma snapshot_disconnect:
  "snapshot (fst (disconnect w r t m)) r' =
     (if r' = normalize_room_id r \<and> w \<in> set (snapshot m (normalize_room_id r))
      then remove1 w (snapshot m (normalize_room_id r)) else snapshot m r')"
  using snapshot_disconnect_room[of w "normalize_room_id r" _ t
          "m\<lparr>connection_times := AList.delete w (connection_times m)\<rparr>" r']
  by (simp add: disconnect_def Let_def snapshot_def)

lemma count_remove1_notin: "count_list xs w \<le> 1 \<Longrightarrow> w \<notin> set (remove1 w xs)"
  by (induction xs) (auto simp: count_list_0_iff split: if_splits)

lemma disconnect_room_absent:
  "w \<notin> set (snapshot m r) \<Longrightarrow> disconnect_room w r c t m = m"
  by (auto simp: snapshot_def disconnect_room_def dict_get_def split: option.splits)

lemma disconnect_removed:
  assumes "w \<notin> set (snapshot m (normalize_room_id r))"
      and "\<not> dict_in w (connection_times m)" and "\<not> dict_in w (client_ids m)"
  shows "disconnect w r t m = (m, [])"
  using assms
  by (simp add: disconnect_def Let_def dict_in_keys disconnect_room_absent snapshot_def)

lemma disconnect_twice:
  assumes "count_list (snapshot m (normalize_room_id r)) w \<le> 1"
  shows "disconnect w r t2 (fst (disconnect w r t1 m)) = (fst (disconnect w r t1 m), [])"
proof (rule disconnect_removed)
  show "w \<notin> set (snapshot (fst (disconnect w r t1 m)) (normalize_room_id r))"
    using assms by (simp add: snapshot_disconnect count_remove1_notin)
  show "\<not> dict_in w (connection_times (fst (disconnect w r t1 m)))"
    by (simp add: disconnect_def Let_def disconnect_room_frame dict_in_delete)
  show "\<not> dict_in w (client_ids (fst (disconnect w r t1 m)))"
    by (simp add: disconnect_def Let_def dict_in_delete)
qed

lemma snapshot_connect:
  "snapshot (connect w r t m) r' =
     (if r' = normalize_room_id r then snapshot m r' @ [w] else snapshot m r')"
proof (cases "dict_in (normalize_room_id r) (active_connections m)")
  case True
  then show ?thesis
    by (simp add: snapshot_def connect_def Let_def dict_get_update)
next
  case False
  then have "dict_get (active_connections m) (normalize_room_id r) [] = []"
    by (simp add: dict_in_def dict_get_def)
  with False show ?thesis
    by (simp add: snapshot_def connect_def Let_def dict_get_update)
qed

lemma snapshot_check_client:
  "set (snapshot (fst (check_client r c t fails m)) r') \<subseteq> set (snapshot m r')"
proof -
  have d: "snapshot (delete_activity r c m) = snapshot m"
    by (rule ext) (simp add: snapshot_def delete_activity_active)
  have "set (snapshot (fst (disconnect w (JStr r) t (delete_activity r c m))) r') \<subseteq> set (snapshot m r')" for w
    using set_remove1_subset[of w "snapshot m (normalize_room_id (JStr r))"]
    by (auto simp: snapshot_disconnect d)
  then show ?thesis
    by (auto simp: check_client_def Let_def split_beta d split: option.splits)
qed

lemma snapshot_check_clients:
  "set (snapshot (fst (check_clients r cs t fails m)) r') \<subseteq> set (snapshot m r')"
proof (induction cs arbitrary: m)
  case Nil
  then show ?case by simp
next
  case (Cons c cs)
  have "set (snapshot (fst (check_clients r cs t fails (fst (check_client r c t fails m)))) r')
          \<subseteq> set (snapshot (fst (check_client r c t fails m)) r')"
    by (rule Cons.IH)
  also have "\<dots> \<subseteq> set (snapshot m r')"
    by (rule snapshot_check_client)
  finally show ?case
    by (simp add: split_beta Let_def)
qed

lemma snapshot_check_rooms:
  "set (snapshot (fst (check_rooms rs t fails m)) r') \<subseteq> set (snapshot m r')"
proof (induction rs arbitrary: m)
  case Nil
  then show ?case by simp
next
  case (Cons r rs)
  show ?case
  proof (cases "map_of (last_activity_times m) r")
    case None
    with Cons.IH[of m] show ?thesis by simp
  next
    case (Some acts)
    have "set (snapshot (fst (check_rooms rs t fails (fst (check_clients r (dict_keys acts) t fails m)))) r')
          \<subseteq> set (snapshot (fst (check_clients r (dict_keys acts) t fails m)) r')"
      by (rule Cons.IH)
    also have "\<dots> \<subseteq> set (snapshot m r')"
      by (rule snapshot_check_clients)
    finally show ?thesis
      using Some by (simp add: split_beta Let_def)
  qed
qed

lemma snapshot_check_timeout_pass:
  "set (snapshot (fst (check_timeout_pass t fails m)) r') \<subseteq> set (snapshot m r')"
  using snapshot_check_rooms[of "dict_keys (last_activity_times m)" t fails m r']
  by (simp add: check_timeout_pass_def split_beta Let_def snapshot_def cleanup_rooms_active)

lemma absent_iff: "absent w m \<longleftrightarrow> (\<forall>r. w \<notin> set (snapshot m r))"
proof
  assume a: "absent w m"
  show "\<forall>r. w \<notin> set (snapshot m r)"
  proof
    fix r
    show "w \<notin> set (snapshot m r)"
    proof (cases "map_of (active_connections m) r")
      case None
      then show ?thesis
        by (simp add: snapshot_def dict_get_def)
    next
      case (Some conns)
      then have "r \<in> set (dict_keys (active_connections m))"
        by (auto simp: dict_keys_def dest: map_of_SomeD intro: rev_image_eqI)
      with a show ?thesis
        by (simp add: absent_def list_all_iff)
    qed
  qed
next
  assume "\<forall>r. w \<notin> set (snapshot m r)"
  then show "absent w m"
    by (simp add: absent_def list_all_iff)
qed

lemma absent_apply_op:
  assumes "absent w m" and "\<not> connects w op"
  shows "absent w (apply_op t op m)"
proof (cases op)
  case (Connect w' r)
  with assms show ?thesis
    by (simp add: absent_iff connects_def snapshot_connect)
next
  case (Disconnect w' r)
  with assms(1) show ?thesis
    using set_remove1_subset[of w' "snapshot m (normalize_room_id r)"]
    by (auto simp: absent_iff snapshot_disconnect)
next
  case (Identify w' c r)
  with assms(1) show ?thesis
    by (simp add: absent_iff snapshot_def update_client_id_active)
next
  case (UpdateActivity r c)
  with assms(1) show ?thesis
    by (simp add: absent_iff snapshot_def update_activity_time_active)
next
  case (Sweep fails)
  with assms(1) show ?thesis
    using snapshot_check_timeout_pass[of t fails m]
    by (auto simp: absent_iff)
qed

lemma absent_run:
  "absent w m \<Longrightarrow> list_all (\<lambda>p. \<not> connects w (snd p)) ops \<Longrightarrow> absent w (run ops m)"
proof (induction ops arbitrary: m)
  case Nil
  then show ?case by simp
next
  case (Cons p ops)
  obtain t op where p: "p = (t, op)" by (cases p)
  with Cons.prems have "absent w (apply_op t op m)"
    by (simp add: absent_apply_op)
  with Cons.IH[of "apply_op t op m"] Cons.prems p show ?case
    by simp
qed

lemma only_in_snapshot: "only_in w r m \<Longrightarrow> r' \<noteq> r \<Longrightarrow> w \<notin> set (snapshot m r')"
proof (cases "map_of (active_connections m) r'")
  case None
  then show ?thesis
    by (simp add: snapshot_def dict_get_def)
next
  case (Some conns)
  assume "only_in w r m" and "r' \<noteq> r"
  with map_of_SomeD[OF Some] have "w \<notin> set conns"
    by (auto simp: only_in_def list_all_iff)
  with Some show ?thesis
    by (simp add: snapshot_def dict_get_def)
qed

lemma absent_after_disconnect:
  assumes "count_list (snapshot m (normalize_room_id r)) w \<le> 1"
      and "only_in w (normalize_room_id r) m"
  shows "absent w (fst (disconnect w r t m))"
  unfolding absent_iff
proof
  fix r'
  show "w \<notin> set (snapshot (fst (disconnect w r t m)) r')"
  proof (cases "r' = normalize_room_id r")
    case True
    with assms(1) show ?thesis
      by (simp add: snapshot_disconnect count_remove1_notin)
  next
    case False
    with only_in_snapshot[OF assms(2)] show ?thesis
      by (simp add: snapshot_disconnect)
  qed
qed

subsection \<open>Facts about the concrete registries\<close>

lemma safe_room_ids_connect: "safe_room_ids (connect w r t m) = safe_room_ids m"
  by (simp add: connect_def Let_def)

lemma zfill_str_int_123456: "zfill 6 (str_int 123456) = ''123456''"
  by (simp add: zfill_def str_int_def)

lemma normalize_123456: "normalize_room_id (JStr ''123456'') = ''123456''"
  by code_simp

subsection \<open>Broadcast\<close>

declare broadcast_loop.simps [simp del]

lemma attempts_append [simp]: "attempts (xs @ ys) = attempts xs @ attempts ys"
  by (induction xs rule: attempts.induct) auto

lemma delivered_append [simp]: "delivered (xs @ ys) = delivered xs @ delivered ys"
  by (induction xs rule: delivered.induct) auto

lemma payloads_append [simp]: "payloads (xs @ ys) = payloads xs @ payloads ys"
  by (induction xs rule: payloads.induct) auto

lemma loop_done:
  "\<not> i < length (iterated st r) \<Longrightarrow> broadcast_loop fails r msg env i st acc = (st, acc)"
  by (subst broadcast_loop.simps) simp

lemma loop_step:
  "i < length (iterated st r) \<Longrightarrow>
     broadcast_loop fails r msg env i st acc =
       broadcast_loop fails r msg (tl env) (i + 1)
         (run_watching r (case env of [] \<Rightarrow> [] | others # later \<Rightarrow> others) st)
         (send_to (fst st) fails r msg (iterated st r ! i) acc)"
  by (subst broadcast_loop.simps) simp

lemma send_to_attempts:
  "attempts (effects (send_to m fails r msg c acc)) = attempts (effects acc) @ [c]"
  by (simp add: send_to_def Let_def)

lemma send_to_delivered:
  "delivered (effects (send_to m fails r msg c acc))
     = delivered (effects acc) @ (if fails c then [] else [c])"
  by (simp add: send_to_def Let_def)

lemma send_to_counts:
  "successful_sends (send_to m fails r msg c acc)
     = successful_sends acc + (if fails c then 0 else 1)"
  "failed_sends (send_to m fails r msg c acc) = failed_sends acc + (if fails c then 1 else 0)"
  by (simp_all add: send_to_def Let_def)

lemma send_to_raised: "raised (send_to m fails r msg c acc) = raised acc"
  by (simp add: send_to_def Let_def)

lemma send_to_store:
  "take (length (store acc)) (store (send_to m fails r msg c acc)) = store acc"
  by (simp add: send_to_def Let_def)

lemma send_to_payloads:
  assumes "msg < length (store acc)"
  shows "payloads (effects (send_to m fails r msg c acc))
           = payloads (effects acc) @
             [if JStr r \<in> set (safe_room_ids m) \<and> dict_in ''client_id'' (store acc ! msg)
              then AList.update ''client_id'' anonymous (store acc ! msg)
              else store acc ! msg]"
    and "store (send_to m fails r msg c acc) ! msg = store acc ! msg"
    and "msg < length (store (send_to m fails r msg c acc))"
  using assms by (auto simp: send_to_def Let_def nth_append)

lemma loop_raised: "raised (snd (broadcast_loop fails r msg env i st acc)) = raised acc"
proof (induction fails r msg env i st acc rule: broadcast_loop.induct)
  case (1 fails r msg env i st acc)
  show ?case
  proof (cases "i < length (iterated st r)")
    case True
    with 1 show ?thesis
      by (simp add: loop_step send_to_raised)
  next
    case False
    then show ?thesis
      by (simp add: loop_done)
  qed
qed

lemma loop_store:
  "take (length (store acc)) (store (snd (broadcast_loop fails r msg env i st acc))) = store acc"
proof (induction fails r msg env i st acc rule: broadcast_loop.induct)
  case (1 fails r msg env i st acc)
  show ?case
  proof (cases "i < length (iterated st r)")
    case False
    then show ?thesis
      by (simp add: loop_done)
  next
    case True
    let ?acc' = "send_to (fst st) fails r msg (iterated st r ! i) acc"
    let ?res = "snd (broadcast_loop fails r msg (tl env) (i + 1)
         (run_watching r (case env of [] \<Rightarrow> [] | others # later \<Rightarrow> others) st) ?acc')"
    have pre: "take (length (store acc)) (store ?acc') = store acc"
      by (rule send_to_store)
    then have le: "length (store acc) \<le> length (store ?acc')"
      by (metis length_take min.cobounded1)
    have "take (length (store acc)) (store ?res)
        = take (length (store acc)) (take (length (store ?acc')) (store ?res))"
      using le by (simp add: min_def)
    also have "\<dots> = take (length (store acc)) (store ?acc')"
      using 1[OF True] by simp
    also have "\<dots> = store acc"
      by (rule pre)
    finally show ?thesis
      using True by (simp add: loop_step)
  qed
qed

lemma loop_tally:
  assumes "successful_sends acc + failed_sends acc = length (attempts (effects acc))"
      and "delivered (effects acc) = filter (\<lambda>w. \<not> fails w) (attempts (effects acc))"
      and "successful_sends acc = length (delivered (effects acc))"
  shows "successful_sends (snd (broadcast_loop fails r msg env i st acc))
           + failed_sends (snd (broadcast_loop fails r msg env i st acc))
           = length (attempts (effects (snd (broadcast_loop fails r msg env i st acc))))
       \<and> delivered (effects (snd (broadcast_loop fails r msg env i st acc)))
           = filter (\<lambda>w. \<not> fails w)
               (attempts (effects (snd (broadcast_loop fails r msg env i st acc))))
       \<and> successful_sends (snd (broadcast_loop fails r msg env i st acc))
           = length (delivered (effects (snd (broadcast_loop fails r msg env i st acc))))"
  using assms
proof (induction fails r msg env i st acc rule: broadcast_loop.induct)
  case (1 fails r msg env i st acc)
  show ?case
  proof (cases "i < length (iterated st r)")
    case False
    with "1.prems" show ?thesis
      by (simp add: loop_done)
  next
    case True
    let ?acc' = "send_to (fst st) fails r msg (iterated st r ! i) acc"
    have a: "successful_sends ?acc' + failed_sends ?acc' = length (attempts (effects ?acc'))"
      using "1.prems"(1) by (simp add: send_to_counts send_to_attempts)
    have b: "delivered (effects ?acc') = filter (\<lambda>w. \<not> fails w) (attempts (effects ?acc'))"
      using "1.prems"(2) by (simp add: send_to_delivered send_to_attempts)
    have c: "successful_sends ?acc' = length (delivered (effects ?acc'))"
      using "1.prems"(3) by (simp add: send_to_counts send_to_delivered)
    show ?thesis
      unfolding loop_step[OF True] by (rule "1.IH"[OF True a b c])
  qed
qed

lemma loop_control:
  "\<forall>acc'. fst (broadcast_loop fails r msg env i st acc) = fst (broadcast_loop fails' r msg env i st acc')
     \<and> (attempts (effects acc) = attempts (effects acc') \<longrightarrow>
          attempts (effects (snd (broadcast_loop fails r msg env i st acc)))
            = attempts (effects (snd (broadcast_loop fails' r msg env i st acc'))))"
proof (induction fails r msg env i st acc rule: broadcast_loop.induct)
  case (1 fails r msg env i st acc)
  show ?case
  proof (cases "i < length (iterated st r)")
    case False
    then show ?thesis
      by (simp add: loop_done)
  next
    case True
    show ?thesis
    proof
      fix acc'
      from 1[OF True, THEN spec,
          of "send_to (fst st) fails' r msg (iterated st r ! i) acc'"]
      show "fst (broadcast_loop fails r msg env i st acc) = fst (broadcast_loop fails' r msg env i st acc')
     \<and> (attempts (effects acc) = attempts (effects acc') \<longrightarrow>
          attempts (effects (snd (broadcast_loop fails r msg env i st acc)))
            = attempts (effects (snd (broadcast_loop fails' r msg env i st acc'))))"
        using True by (simp add: loop_step send_to_attempts)
    qed
  qed
qed

lemma snapshot_nonempty_dict_in:
  "snapshot m r \<noteq> [] \<Longrightarrow> dict_in r (active_connections m)"
  by (auto simp: snapshot_def dict_get_def dict_in_def split: option.splits)

lemma snapshot_absent_room: "\<not> dict_in r (active_connections m) \<Longrightarrow> snapshot m r = []"
  by (simp add: snapshot_def dict_get_def dict_in_def)

lemma membership_stable_tl:
  "membership_stable r (others # env) m \<Longrightarrow> snd st \<Longrightarrow> fst st = m \<Longrightarrow> snapshot m r \<noteq> [] \<Longrightarrow>
     snd (run_watching r others st)
     \<and> snapshot (fst (run_watching r others st)) r = snapshot m r
     \<and> membership_stable r env (fst (run_watching r others st))"
proof (induction others arbitrary: st m)
  case Nil
  then show ?case by simp
next
  case (Cons s others)
  let ?st' = "(s (fst st), snd st \<and> dict_in r (active_connections (s (fst st))))"
  from Cons.prems have same: "snapshot (s m) r = snapshot m r"
    and rest: "membership_stable r (others # env) (s m)"
    by simp_all
  from same Cons.prems(4) have "dict_in r (active_connections (s m))"
    by (simp add: snapshot_nonempty_dict_in)
  with Cons.prems have alive: "snd ?st'" and here: "fst ?st' = s m"
    by simp_all
  from same Cons.prems(4) have ne: "snapshot (s m) r \<noteq> []"
    by simp
  from Cons.IH[OF rest alive here ne] same show ?case
    by simp
qed

lemma membership_stable_step:
  assumes "membership_stable r env (fst st)" and "snd st" and "snapshot (fst st) r \<noteq> []"
  shows "snd (run_watching r (case env of [] \<Rightarrow> [] | others # later \<Rightarrow> others) st)
     \<and> snapshot (fst (run_watching r (case env of [] \<Rightarrow> [] | others # later \<Rightarrow> others) st)) r
         = snapshot (fst st) r
     \<and> membership_stable r (tl env)
         (fst (run_watching r (case env of [] \<Rightarrow> [] | others # later \<Rightarrow> others) st))"
proof (cases env)
  case Nil
  with assms show ?thesis by simp
next
  case (Cons others later)
  with assms membership_stable_tl[of r others later "fst st" st] show ?thesis
    by simp
qed

lemma loop_stable:
  assumes "snd st" and "membership_stable r env (fst st)"
  shows "snapshot (fst (fst (broadcast_loop fails r msg env i st acc))) r = snapshot (fst st) r
       \<and> (snapshot (fst st) r = [] \<longrightarrow> fst (broadcast_loop fails r msg env i st acc) = st)
       \<and> attempts (effects (snd (broadcast_loop fails r msg env i st acc)))
           = attempts (effects acc) @ drop i (snapshot (fst st) r)"
  using assms
proof (induction fails r msg env i st acc rule: broadcast_loop.induct)
  case (1 fails r msg env i st acc)
  from "1.prems"(1) have it: "iterated st r = snapshot (fst st) r"
    by (simp add: iterated_def)
  show ?case
  proof (cases "i < length (iterated st r)")
    case False
    with it show ?thesis
      by (simp add: loop_done)
  next
    case True
    let ?st' = "run_watching r (case env of [] \<Rightarrow> [] | others # later \<Rightarrow> others) st"
    from True it have ne: "snapshot (fst st) r \<noteq> []"
      by auto
    from membership_stable_step[OF "1.prems"(2) "1.prems"(1) ne]
    have alive: "snd ?st'" and same: "snapshot (fst ?st') r = snapshot (fst st) r"
      and stable: "membership_stable r (tl env) (fst ?st')"
      by simp_all
    note ih = "1.IH"[OF True alive stable]
    have d: "drop i (snapshot (fst st) r)
               = snapshot (fst st) r ! i # drop (i + 1) (snapshot (fst st) r)"
      using True it by (simp add: Cons_nth_drop_Suc)
    show ?thesis
      unfolding loop_step[OF True]
      using ih ne by (simp add: same send_to_attempts it d)
  qed
qed

lemma foldl_send_to_payloads:
  assumes "msg < length (store acc)"
  shows "payloads (effects (foldl (\<lambda>a c. send_to m fails r msg c a) acc conns))
     = payloads (effects acc) @
       replicate (length conns)
         (if JStr r \<in> set (safe_room_ids m) \<and> dict_in ''client_id'' (store acc ! msg)
          then AList.update ''client_id'' anonymous (store acc ! msg)
          else store acc ! msg)"
  using assms
proof (induction conns arbitrary: acc)
  case Nil
  then show ?case by simp
next
  case (Cons c conns)
  from send_to_payloads[OF Cons.prems, of m fails r c] Cons.IH[of "send_to m fails r msg c acc"]
  show ?case
    by (simp add: replicate_append_same)
qed

lemma loop_alone:
  "env = [] \<Longrightarrow>
     broadcast_loop fails r msg env i st acc
       = (st, foldl (\<lambda>a c. send_to (fst st) fails r msg c a) acc (drop i (iterated st r)))"
proof (induction fails r msg env i st acc rule: broadcast_loop.induct)
  case (1 fails r msg env i st acc)
  show ?case
  proof (cases "i < length (iterated st r)")
    case False
    then show ?thesis
      by (simp add: loop_done)
  next
    case True
    have d: "drop i (iterated st r) = iterated st r ! i # drop (i + 1) (iterated st r)"
      using True by (simp add: Cons_nth_drop_Suc)
    from "1.IH"[OF True] "1.prems" show ?thesis
      unfolding loop_step[OF True] by (simp add: d)
  qed
qed

lemma summarize_ok:
  "text_content_ok msg \<Longrightarrow>
     \<exists>s. summarize (dict_get msg ''type'' (JStr ''unknown'')) msg = Inr s"
  by (auto simp: text_content_ok_def summarize_def split: json.splits if_splits)

lemma summarize_raises:
  "\<not> text_content_ok msg \<Longrightarrow>
     summarize (dict_get msg ''type'' (JStr ''unknown'')) msg = Inl TypeError"
  by (auto simp: text_content_ok_def summarize_def split: json.splits if_splits)

lemma broadcast_unfold:
  assumes "text_content_ok (h ! message)"
  shows "broadcast m env fails room_id message h =
     (if dict_in (normalize_room_id room_id) (active_connections m) then
        (if dict_in (normalize_room_id room_id)
              (active_connections (fst (fst (broadcast_loop fails (normalize_room_id room_id)
                 message env 0 (m, True) \<lparr>store = h, successful_sends = 0, failed_sends = 0, effects = [], raised = None\<rparr>))))
         then snd (broadcast_loop fails (normalize_room_id room_id) message env 0 (m, True)
                \<lparr>store = h, successful_sends = 0, failed_sends = 0, effects = [], raised = None\<rparr>)
         else (snd (broadcast_loop fails (normalize_room_id room_id) message env 0 (m, True)
                \<lparr>store = h, successful_sends = 0, failed_sends = 0, effects = [], raised = None\<rparr>))\<lparr>raised := Some KeyError\<rparr>)
      else \<lparr>store = h, successful_sends = 0, failed_sends = 0, effects = [], raised = None\<rparr>)"
proof -
  from summarize_ok[OF assms] obtain s where
    "summarize (dict_get (h ! message) ''type'' (JStr ''unknown'')) (h ! message) = Inr s" ..
  then show ?thesis
    by (simp add: broadcast_def Let_def split_beta)
qed

lemma broadcast_not_ok:
  assumes "\<not> text_content_ok (h ! message)"
  shows "broadcast m env fails room_id message h = \<lparr>store = h, successful_sends = 0, failed_sends = 0, effects = [], raised = None\<rparr>\<lparr>raised := Some TypeError\<rparr>"
  using summarize_raises[OF assms] by (simp add: broadcast_def Let_def)

lemma broadcast_store: "take (length h) (store (broadcast m env fails room_id message h)) = h"
proof (cases "text_content_ok (h ! message)")
  case True
  show ?thesis
    using loop_store[of "\<lparr>store = h, successful_sends = 0, failed_sends = 0, effects = [], raised = None\<rparr>"
        fails "normalize_room_id room_id" message env 0 "(m, True)"]
    by (simp add: broadcast_unfold[OF True])
next
  case False
  then show ?thesis
    by (simp add: broadcast_not_ok)
qed

lemma broadcast_keeps_object:
  assumes "a < length h"
  shows "store (broadcast m env fails room_id message h) ! a = h ! a"
proof -
  have "take (length h) (store (broadcast m env fails room_id message h)) ! a = h ! a"
    by (simp only: broadcast_store)
  with assms show ?thesis by simp
qed

lemma broadcast_alone:
  assumes "text_content_ok (h ! message)"
  shows "broadcast m [] fails room_id message h =
     foldl (\<lambda>a c. send_to m fails (normalize_room_id room_id) message c a)
       \<lparr>store = h, successful_sends = 0, failed_sends = 0, effects = [], raised = None\<rparr>
       (snapshot m (normalize_room_id room_id))"
proof (cases "dict_in (normalize_room_id room_id) (active_connections m)")
  case True
  then show ?thesis
    by (simp add: broadcast_unfold[OF assms] loop_alone iterated_def)
next
  case False
  then show ?thesis
    by (simp add: broadcast_unfold[OF assms] snapshot_absent_room)
qed

lemma broadcast_payloads:
  assumes "text_content_ok (h ! message)" and "message < length h"
  shows "payloads (effects (broadcast m [] fails room_id message h))
     = replicate (length (snapshot m (normalize_room_id room_id)))
         (if JStr (normalize_room_id room_id) \<in> set (safe_room_ids m)
             \<and> dict_in ''client_id'' (h ! message)
          then AList.update ''client_id'' anonymous (h ! message)
          else h ! message)"
  using assms(2) by (simp add: broadcast_alone[OF assms(1)] foldl_send_to_payloads)

lemma broadcast_fields:
  assumes "text_content_ok (h ! message)"
      and "dict_in (normalize_room_id room_id) (active_connections m)"
  shows "successful_sends (broadcast m env fails room_id message h)
           = successful_sends (snd (broadcast_loop fails (normalize_room_id room_id) message env 0
               (m, True)
               \<lparr>store = h, successful_sends = 0, failed_sends = 0, effects = [], raised = None\<rparr>))"
    and "failed_sends (broadcast m env fails room_id message h)
           = failed_sends (snd (broadcast_loop fails (normalize_room_id room_id) message env 0
               (m, True)
               \<lparr>store = h, successful_sends = 0, failed_sends = 0, effects = [], raised = None\<rparr>))"
    and "effects (broadcast m env fails room_id message h)
           = effects (snd (broadcast_loop fails (normalize_room_id room_id) message env 0
               (m, True)
               \<lparr>store = h, successful_sends = 0, failed_sends = 0, effects = [], raised = None\<rparr>))"
  using assms(2) by (simp_all add: broadcast_unfold[OF assms(1)])

lemma broadcast_tally:
  "successful_sends (broadcast m env fails room_id message h)
     + failed_sends (broadcast m env fails room_id message h)
     = length (attempts (effects (broadcast m env fails room_id message h)))
   \<and> delivered (effects (broadcast m env fails room_id message h))
       = filter (\<lambda>w. \<not> fails w) (attempts (effects (broadcast m env fails room_id message h)))
   \<and> successful_sends (broadcast m env fails room_id message h)
       = length (delivered (effects (broadcast m env fails room_id message h)))"
proof (cases "text_content_ok (h ! message)")
  case False
  then show ?thesis
    by (simp add: broadcast_not_ok)
next
  case True
  show ?thesis
  proof (cases "dict_in (normalize_room_id room_id) (active_connections m)")
    case False
    then show ?thesis
      by (simp add: broadcast_unfold[OF True])
  next
    case here: True
    show ?thesis
      unfolding broadcast_fields[OF True here] by (rule loop_tally) simp_all
  qed
qed

lemma broadcast_control:
  "attempts (effects (broadcast m env fails room_id message h))
     = attempts (effects (broadcast m env fails' room_id message h))
   \<and> raised (broadcast m env fails room_id message h)
     = raised (broadcast m env fails' room_id message h)"
proof (cases "text_content_ok (h ! message)")
  case False
  then show ?thesis
    by (simp add: broadcast_not_ok)
next
  case True
  let ?start = "\<lparr>store = h, successful_sends = 0, failed_sends = 0, effects = [], raised = None\<rparr>"
  from loop_control[of fails "normalize_room_id room_id" message env 0 "(m, True)" ?start fails',
      THEN spec, of ?start]
  show ?thesis
    by (simp add: broadcast_unfold[OF True] loop_raised)
qed

lemma broadcast_empty_room:
  assumes "text_content_ok (h ! message)" and "snapshot m (normalize_room_id room_id) = []"
  shows "effects (broadcast m env fails room_id message h) = []
       \<and> raised (broadcast m env fails room_id message h) = None"
  using assms by (simp add: broadcast_unfold loop_done iterated_def)

lemma broadcast_stable:
  assumes "text_content_ok (h ! message)"
      and "membership_stable (normalize_room_id room_id) env m"
  shows "raised (broadcast m env fails room_id message h) = None
       \<and> attempts (effects (broadcast m env fails room_id message h))
           = snapshot m (normalize_room_id room_id)"
proof (cases "dict_in (normalize_room_id room_id) (active_connections m)")
  case False
  then show ?thesis
    by (simp add: broadcast_unfold[OF assms(1)] snapshot_absent_room)
next
  case True
  let ?r = "normalize_room_id room_id"
  let ?start = "\<lparr>store = h, successful_sends = 0, failed_sends = 0, effects = [], raised = None\<rparr>"
  let ?run = "broadcast_loop fails ?r message env 0 (m, True) ?start"
  from loop_stable[of "(m, True)" ?r env fails message 0 ?start] assms(2)
  have same: "snapshot (fst (fst ?run)) ?r = snapshot m ?r"
    and idle: "snapshot m ?r = [] \<longrightarrow> fst ?run = (m, True)"
    and att: "attempts (effects (snd ?run)) = snapshot m ?r"
    by simp_all
  have "dict_in ?r (active_connections (fst (fst ?run)))"
  proof (cases "snapshot m ?r = []")
    case True
    with idle \<open>dict_in ?r (active_connections m)\<close> show ?thesis
      by simp
  next
    case False
    with same show ?thesis
      by (simp add: snapshot_nonempty_dict_in)
  qed
  with True att show ?thesis
    by (simp add: broadcast_unfold[OF assms(1)] loop_raised)
qed

lemma record_connection_client_ids:
  "client_ids (fst (record_connection r c t m out)) = client_ids m"
  by (simp add: record_connection_def Let_def split: option.splits)

lemma update_client_id_client_ids:
  "client_ids (fst (update_client_id w c r t m)) = AList.update w c (client_ids m)"
  by (simp add: update_client_id_def Let_def record_connection_client_ids split: option.splits)

lemma update_client_id_binds:
  "map_of (client_ids (fst (update_client_id w c r t m))) w = Some c"
  by (simp add: update_client_id_client_ids AList.update_conv')

lemma disconnect_client_ids:
  "client_ids (fst (disconnect w r t m)) = AList.delete w (client_ids m)"
  by (simp add: disconnect_def Let_def disconnect_room_frame)

lemma check_client_client_ids:
  "map_of (client_ids (fst (check_client r c t fails m))) w = Some l
     \<Longrightarrow> map_of (client_ids m) w = Some l"
proof -
  have d: "client_ids (delete_activity r c m) = client_ids m"
    by (simp add: delete_activity_def split: option.splits)
  assume "map_of (client_ids (fst (check_client r c t fails m))) w = Some l"
  then show ?thesis
    by (auto simp: check_client_def Let_def split_beta d disconnect_client_ids
        AList.delete_conv' split: option.splits if_splits)
qed

lemma check_clients_client_ids:
  "map_of (client_ids (fst (check_clients r cs t fails m))) w = Some l
     \<Longrightarrow> map_of (client_ids m) w = Some l"
proof (induction cs arbitrary: m)
  case Nil
  then show ?case by simp
next
  case (Cons c cs)
  from Cons.prems
  have "map_of (client_ids (fst (check_clients r cs t fails (fst (check_client r c t fails m))))) w
          = Some l"
    by (simp add: split_beta Let_def)
  then have "map_of (client_ids (fst (check_client r c t fails m))) w = Some l"
    by (rule Cons.IH)
  then show ?case
    by (rule check_client_client_ids)
qed

lemma check_rooms_client_ids:
  "map_of (client_ids (fst (check_rooms rs t fails m))) w = Some l
     \<Longrightarrow> map_of (client_ids m) w = Some l"
proof (induction rs arbitrary: m)
  case Nil
  then show ?case by simp
next
  case (Cons r rs)
  show ?case
  proof (cases "map_of (last_activity_times m) r")
    case None
    with Cons show ?thesis by simp
  next
    case (Some acts)
    with Cons.prems
    have "map_of (client_ids (fst (check_rooms rs t fails
            (fst (check_clients r (dict_keys acts) t fails m))))) w = Some l"
      by (simp add: split_beta Let_def)
    then have "map_of (client_ids (fst (check_clients r (dict_keys acts) t fails m))) w = Some l"
      by (rule Cons.IH)
    then show ?thesis
      by (rule check_clients_client_ids)
  qed
qed

lemma cleanup_rooms_client_ids: "client_ids (fst (cleanup_rooms rs m)) = client_ids m"
  by (induction rs arbitrary: m) (auto split: option.splits)

lemma check_timeout_pass_client_ids:
  "map_of (client_ids (fst (check_timeout_pass t fails m))) w = Some l
     \<Longrightarrow> map_of (client_ids m) w = Some l"
  using check_rooms_client_ids[of "dict_keys (last_activity_times m)" t fails m w l]
  by (simp add: check_timeout_pass_def split_beta Let_def cleanup_rooms_client_ids)

lemma labels_come_from_identify:
  assumes "map_of (client_ids (apply_op t op m)) w = Some l"
  shows "l = unknown_client \<or> map_of (client_ids m) w = Some l \<or> (\<exists>r. op = Identify w l r)"
proof (cases op)
  case (Connect w' r)
  with assms show ?thesis
    by (auto simp: connect_def Let_def AList.update_conv' split: if_splits)
next
  case (Disconnect w' r)
  with assms show ?thesis
    by (auto simp: disconnect_client_ids AList.delete_conv' split: if_splits)
next
  case (Identify w' c r)
  with assms show ?thesis
    by (auto simp: update_client_id_client_ids AList.update_conv' split: if_splits)
next
  case (UpdateActivity r c)
  with assms show ?thesis
    by (simp add: update_activity_time_def Let_def)
next
  case (Sweep fails)
  with assms show ?thesis
    by (auto dest: check_timeout_pass_client_ids)
qed

subsection \<open>Identification and reconnect classification\<close>

lemma lookup_time_entry:
  "lookup_time d r c = (case entry_of d r c of None \<Rightarrow> 0 | Some t \<Rightarrow> t)"
  by (simp add: lookup_time_def entry_of_def dict_get_def split: option.splits)

lemma entry_of_update:
  "entry_of (AList.update r inner d) r' c = (if r' = r then map_of inner c else entry_of d r' c)"
  by (simp add: entry_of_def AList.update_conv')

lemma entry_of_delete:
  "entry_of (AList.delete r d) r' c = (if r' = r then None else entry_of d r' c)"
  by (simp add: entry_of_def AList.delete_conv')

lemma update_client_id_known_room:
  assumes lc: "map_of (last_connection_times m) (normalize_room_id room_id) = Some conns"
      and lr: "map_of (last_refresh_times m) (normalize_room_id room_id) = Some refs"
  shows "update_client_id w c room_id now m =
     (m\<lparr>client_ids := AList.update w c (client_ids m),
        last_refresh_times :=
          (if 0 < now - dict_get conns c 0 \<and> now - dict_get conns c 0 < 5
              \<and> 10 < now - dict_get refs c 0
           then AList.update (normalize_room_id room_id) (AList.update c now refs)
                  (last_refresh_times m)
           else last_refresh_times m),
        last_connection_times :=
          AList.update (normalize_room_id room_id) (AList.update c now conns)
            (last_connection_times m),
        last_activity_times :=
          AList.update (normalize_room_id room_id)
            (AList.update c now (dict_get (last_activity_times m) (normalize_room_id room_id) []))
            (last_activity_times m)\<rparr>,
      if 0 < now - dict_get conns c 0 \<and> now - dict_get conns c 0 < 5
      then (if 10 < now - dict_get refs c 0
            then [Log (LogRefresh (shown_label m (normalize_room_id room_id) c)
                         (formatted (normalize_room_id room_id)))]
            else [])
      else [Log (LogConnect (shown_label m (normalize_room_id room_id) c)
                   (formatted (normalize_room_id room_id)))],
      None)"
  using lc lr
  by (simp add: update_client_id_def record_connection_def Let_def dict_get_def shown_label_def
      safe_rooms_str_def)

lemma lookup_time_known:
  "map_of d r = Some inner \<Longrightarrow> lookup_time d r c = dict_get inner c 0"
  by (simp add: lookup_time_def dict_get_def)

lemma entry_of_known:
  "map_of d r = Some inner \<Longrightarrow> entry_of d r c = map_of inner c"
  by (simp add: entry_of_def)

lemma safe_room_ids_disconnect: "safe_room_ids (fst (disconnect w r t m)) = safe_room_ids m"
  by (simp add: disconnect_def Let_def disconnect_room_frame)

lemma connect_timing:
  "last_connection_times (connect w r t m) =
     (if dict_in (normalize_room_id r) (active_connections m) then last_connection_times m
      else AList.update (normalize_room_id r) [] (last_connection_times m))"
  "last_refresh_times (connect w r t m) =
     (if dict_in (normalize_room_id r) (active_connections m) then last_refresh_times m
      else AList.update (normalize_room_id r) [] (last_refresh_times m))"
  by (simp_all add: connect_def Let_def)

lemma disconnect_room_written:
  assumes "entry_of (last_connection_times (disconnect_room w r l t m)) r' c = Some t'"
  shows "entry_of (last_connection_times m) r' c = Some t'
       \<or> (t' = t \<and> r' = r \<and> c = l \<and> l \<noteq> unknown_client
           \<and> w \<in> set (snapshot m r) \<and> remove1 w (snapshot m r) \<noteq> [])"
proof (cases "map_of (active_connections m) r")
  case None
  with assms show ?thesis
    by (simp add: disconnect_room_def)
next
  case (Some conns)
  then have s: "snapshot m r = conns"
    by (simp add: snapshot_def dict_get_def)
  show ?thesis
  proof (cases "w \<in> set conns \<and> remove1 w conns \<noteq> [] \<and> l \<noteq> unknown_client")
    case True
    with assms Some s show ?thesis
      by (auto simp: disconnect_room_def Let_def entry_of_update AList.update_conv'
          entry_of_def split: option.splits if_splits)
  next
    case False
    with assms Some s show ?thesis
      by (auto simp: disconnect_room_def Let_def entry_of_delete
          split: option.splits if_splits)
  qed
qed

lemma disconnect_written:
  assumes "entry_of (last_connection_times (fst (disconnect w room_id t m))) r c = Some t'"
  shows "entry_of (last_connection_times m) r c = Some t'
       \<or> (t' = t \<and> r = normalize_room_id room_id
           \<and> c = dict_get (client_ids m) w unknown_client \<and> c \<noteq> unknown_client
           \<and> w \<in> set (snapshot m (normalize_room_id room_id))
           \<and> remove1 w (snapshot m (normalize_room_id room_id)) \<noteq> [])"
proof -
  from assms
  have "entry_of (last_connection_times
          (disconnect_room w (normalize_room_id room_id)
             (dict_get (client_ids m) w unknown_client) t
             (m\<lparr>connection_times := AList.delete w (connection_times m)\<rparr>))) r c = Some t'"
    by (simp add: disconnect_def Let_def)
  from disconnect_room_written[OF this] show ?thesis
    by (auto simp: snapshot_def)
qed

lemma disconnect_records:
  assumes "dict_get (client_ids m) w unknown_client = c" and "c \<noteq> unknown_client"
      and "w \<in> set (snapshot m (normalize_room_id room_id))"
      and "remove1 w (snapshot m (normalize_room_id room_id)) \<noteq> []"
      and "dict_in (normalize_room_id room_id) (last_connection_times m)"
  shows "entry_of (last_connection_times (fst (disconnect w room_id t m)))
           (normalize_room_id room_id) c = Some t"
proof -
  from assms(3) obtain conns where
    ac: "map_of (active_connections m) (normalize_room_id room_id) = Some conns"
    by (cases "map_of (active_connections m) (normalize_room_id room_id)")
       (auto simp: snapshot_def dict_get_def)
  then have s: "snapshot m (normalize_room_id room_id) = conns"
    by (simp add: snapshot_def dict_get_def)
  from assms(5) obtain stamps where
    lc: "map_of (last_connection_times m) (normalize_room_id room_id) = Some stamps"
    by (auto simp: dict_in_def)
  from assms(1-4) ac s lc show ?thesis
    by (simp add: disconnect_def Let_def disconnect_room_def entry_of_update AList.update_conv')
qed

lemma disconnect_room_unidentified:
  "(last_connection_times (disconnect_room w r unknown_client t m) = last_connection_times m
      \<and> last_refresh_times (disconnect_room w r unknown_client t m) = last_refresh_times m
      \<and> dict_in r (active_connections (disconnect_room w r unknown_client t m))
          = dict_in r (active_connections m))
   \<or> \<not> dict_in r (active_connections (disconnect_room w r unknown_client t m))"
  by (auto simp: disconnect_room_def Let_def dict_in_def AList.update_conv' AList.delete_conv'
      split: option.splits)

lemma disconnect_unidentified:
  assumes "dict_get (client_ids m) w unknown_client = unknown_client"
  shows "(last_connection_times (fst (disconnect w room_id t m)) = last_connection_times m
      \<and> last_refresh_times (fst (disconnect w room_id t m)) = last_refresh_times m
      \<and> dict_in (normalize_room_id room_id) (active_connections (fst (disconnect w room_id t m)))
          = dict_in (normalize_room_id room_id) (active_connections m))
   \<or> \<not> dict_in (normalize_room_id room_id) (active_connections (fst (disconnect w room_id t m)))"
  using disconnect_room_unidentified[of w "normalize_room_id room_id" t
          "m\<lparr>connection_times := AList.delete w (connection_times m)\<rparr>"] assms
  by (simp add: disconnect_def Let_def)

lemma shown_label_cong:
  "safe_room_ids m' = safe_room_ids m \<Longrightarrow> shown_label m' r c = shown_label m r c"
  by (simp add: shown_label_def safe_rooms_str_def)

lemma fresh_room_after_unidentified:
  assumes unident: "dict_get (client_ids m) w unknown_client = unknown_client"
      and none: "entry_of (last_connection_times m) (normalize_room_id room_id) c = None"
      and pres: "timing_present m (normalize_room_id room_id)"
  shows "\<exists>conns refs.
           map_of (last_connection_times (connect w2 room_id t2 (fst (disconnect w room_id t1 m))))
             (normalize_room_id room_id) = Some conns
         \<and> map_of (last_refresh_times (connect w2 room_id t2 (fst (disconnect w room_id t1 m))))
             (normalize_room_id room_id) = Some refs
         \<and> map_of conns c = None"
proof -
  let ?r = "normalize_room_id room_id"
  let ?m1 = "fst (disconnect w room_id t1 m)"
  show ?thesis
  proof (cases "dict_in ?r (active_connections ?m1)")
    case False
    then show ?thesis
      by (simp add: connect_timing AList.update_conv')
  next
    case True
    with disconnect_unidentified[OF unident, of room_id t1]
    have same: "last_connection_times ?m1 = last_connection_times m"
               "last_refresh_times ?m1 = last_refresh_times m"
               "dict_in ?r (active_connections m)"
      by auto
    with pres obtain conns refs where
      lc: "map_of (last_connection_times m) ?r = Some conns" and
      lr: "map_of (last_refresh_times m) ?r = Some refs"
      by (auto simp: timing_present_def dict_in_def)
    from none lc have "map_of conns c = None"
      by (simp add: entry_of_def)
    with True same lc lr show ?thesis
      by (simp add: connect_timing)
  qed
qed

subsection \<open>The idle sweep\<close>

lemma fresh_part_idem [simp]: "fresh_part now (fresh_part now e) = fresh_part now e"
  by (simp add: fresh_part_def split: option.splits)

lemma fresh_part_None [simp]: "fresh_part now None = None"
  by (simp add: fresh_part_def)


lemma check_client_state:
  "fst (check_client r c now fails m) =
     (case map_of (last_activity_times m) r of
        None \<Rightarrow> m
      | Some acts \<Rightarrow>
          if timeout_seconds < now - dict_get acts c 0 then
            (case find_websocket m r c of
               Some w \<Rightarrow> fst (disconnect w (JStr r) now (delete_activity r c m))
             | None \<Rightarrow> delete_activity r c m)
          else m)"
  by (simp add: check_client_def Let_def split_beta split: option.splits)










lemma delete_activity_frame:
  "active_connections (delete_activity r c m) = active_connections m"
  "client_ids (delete_activity r c m) = client_ids m"
  "connection_times (delete_activity r c m) = connection_times m"
  "last_connection_times (delete_activity r c m) = last_connection_times m"
  "last_refresh_times (delete_activity r c m) = last_refresh_times m"
  "safe_room_ids (delete_activity r c m) = safe_room_ids m"
  by (simp_all add: delete_activity_def split: option.splits)



subsection \<open>Reachable registries and the receive loop\<close>

lemma dict_in_update: "dict_in k (AList.update k' v d) \<longleftrightarrow> k = k' \<or> dict_in k d"
  by (auto simp: dict_in_def AList.update_conv')

lemma dict_in_delete_iff: "dict_in k (AList.delete k' d) \<longleftrightarrow> k \<noteq> k' \<and> dict_in k d"
  by (auto simp: dict_in_def AList.delete_conv')

lemma list_all_delete_key:
  "list_all P al \<Longrightarrow> (\<And>p. fst p \<noteq> k \<Longrightarrow> P p \<Longrightarrow> Q p) \<Longrightarrow> list_all Q (AList.delete k al)"
  by (induction al) auto

lemma set_update_subset: "set (AList.update k v al) \<subseteq> insert (k, v) (set al)"
  by (induction al) auto

lemma list_all_update_mono:
  assumes "list_all P al" and "Q (k, v)" and "\<And>p. P p \<Longrightarrow> Q p"
  shows "list_all Q (AList.update k v al)"
  unfolding list_all_iff
proof
  fix p
  assume "p \<in> set (AList.update k v al)"
  with set_update_subset[of k v al] have "p = (k, v) \<or> p \<in> set al"
    by auto
  moreover from assms(1) have "\<forall>x\<in>set al. P x"
    by (simp add: list_all_iff)
  ultimately show "Q p"
    using assms(2,3) by blast
qed

lemma timing_consistent_present:
  assumes "timing_consistent m"
  shows "timing_present m r"
proof (cases "map_of (active_connections m) r")
  case None
  then show ?thesis
    by (simp add: timing_present_def dict_in_def)
next
  case (Some conns)
  from list_all_map_of[OF Some assms[unfolded timing_consistent_def]]
  show ?thesis
    by (simp add: timing_present_def)
qed

lemma connect_timing_consistent:
  assumes "timing_consistent m"
  shows "timing_consistent (connect w r t m)"
proof (cases "dict_in (normalize_room_id r) (active_connections m)")
  case True
  with timing_consistent_present[OF assms, of "normalize_room_id r"]
  have here: "dict_in (normalize_room_id r) (last_connection_times m)
            \<and> dict_in (normalize_room_id r) (last_refresh_times m)"
    by (simp add: timing_present_def)
  from assms True here show ?thesis
    by (simp add: timing_consistent_def connect_def Let_def list_all_update)
next
  case False
  let ?Q = "\<lambda>p. dict_in (fst p)
                      (AList.update (normalize_room_id r) [] (last_connection_times m))
                  \<and> dict_in (fst p)
                      (AList.update (normalize_room_id r) [] (last_refresh_times m))"
  from assms have q: "list_all ?Q (AList.update (normalize_room_id r) [] (active_connections m))"
    unfolding timing_consistent_def
    by (rule list_all_update_mono) (simp_all add: dict_in_update)
  have "list_all ?Q
       (AList.update (normalize_room_id r)
          (dict_get (AList.update (normalize_room_id r) [] (active_connections m))
             (normalize_room_id r) [] @ [w])
          (AList.update (normalize_room_id r) [] (active_connections m)))"
    by (rule list_all_update) (simp add: dict_in_update, rule q)
  with False show ?thesis
    by (simp add: timing_consistent_def connect_def Let_def)
qed

lemma disconnect_room_timing_consistent:
  assumes "timing_consistent m"
  shows "timing_consistent (disconnect_room w r c t m)"
proof (cases "map_of (active_connections m) r")
  case None
  with assms show ?thesis
    by (simp add: disconnect_room_def)
next
  case (Some conns)
  from timing_consistent_present[OF assms, of r] Some
  have here: "dict_in r (last_connection_times m) \<and> dict_in r (last_refresh_times m)"
    by (simp add: timing_present_def dict_in_def)
  show ?thesis
  proof (cases "w \<in> set conns")
    case False
    with Some assms show ?thesis
      by (simp add: disconnect_room_def)
  next
    case True
    show ?thesis
    proof (cases "remove1 w conns = []")
      case True
      from assms have "list_all (\<lambda>p. dict_in (fst p) (AList.delete r (last_connection_times m))
                  \<and> dict_in (fst p) (AList.delete r (last_refresh_times m)))
          (AList.delete r (active_connections m))"
        unfolding timing_consistent_def
        by (rule list_all_delete_key) (simp add: dict_in_delete_iff)
      with Some \<open>w \<in> set conns\<close> True show ?thesis
        by (simp add: timing_consistent_def disconnect_room_def)
    next
      case False
      from here obtain stamps where st: "map_of (last_connection_times m) r = Some stamps"
        by (auto simp: dict_in_def)
      from assms here
      have a: "list_all (\<lambda>p. dict_in (fst p) (last_connection_times m)
                  \<and> dict_in (fst p) (last_refresh_times m))
          (AList.update r (remove1 w conns) (active_connections m))"
        unfolding timing_consistent_def by (simp add: list_all_update)
      from assms here
      have b: "list_all (\<lambda>p. dict_in (fst p)
                     (AList.update r (AList.update c t stamps) (last_connection_times m))
                  \<and> dict_in (fst p) (last_refresh_times m))
          (AList.update r (remove1 w conns) (active_connections m))"
        unfolding timing_consistent_def
        by (intro list_all_update_mono[where P = "\<lambda>p. dict_in (fst p) (last_connection_times m)
                  \<and> dict_in (fst p) (last_refresh_times m)"])
           (auto simp: dict_in_update)
      from Some \<open>w \<in> set conns\<close> False st a b show ?thesis
        by (simp add: timing_consistent_def disconnect_room_def Let_def)
    qed
  qed
qed

lemma disconnect_timing_consistent:
  "timing_consistent m \<Longrightarrow> timing_consistent (fst (disconnect w r t m))"
  using disconnect_room_timing_consistent[of
          "m\<lparr>connection_times := AList.delete w (connection_times m)\<rparr>" w "normalize_room_id r"]
  by (simp add: disconnect_def Let_def timing_consistent_def)

lemma record_connection_keys:
  "dict_in k (last_connection_times m) \<Longrightarrow>
     dict_in k (last_connection_times (fst (record_connection r c t m out)))"
  "last_refresh_times (fst (record_connection r c t m out)) = last_refresh_times m"
  by (simp_all add: record_connection_def Let_def dict_in_update split: option.splits)

lemma update_client_id_keys:
  "dict_in k (last_connection_times m) \<Longrightarrow>
     dict_in k (last_connection_times (fst (update_client_id w c r t m)))"
  "dict_in k (last_refresh_times m) \<Longrightarrow>
     dict_in k (last_refresh_times (fst (update_client_id w c r t m)))"
  by (simp_all add: update_client_id_def Let_def record_connection_keys dict_in_update
      split: option.splits)

lemma update_client_id_timing_consistent:
  "timing_consistent m \<Longrightarrow> timing_consistent (fst (update_client_id w c r t m))"
  by (simp add: timing_consistent_def update_client_id_active list_all_iff update_client_id_keys)

lemma check_client_timing_consistent:
  assumes "timing_consistent m"
  shows "timing_consistent (fst (check_client r c t fails m))"
proof -
  from assms have d: "timing_consistent (delete_activity r c m)"
    by (simp add: timing_consistent_def delete_activity_frame)
  from assms d disconnect_timing_consistent[OF d] show ?thesis
    by (simp add: check_client_state split: option.splits)
qed

lemma check_clients_timing_consistent:
  "timing_consistent m \<Longrightarrow> timing_consistent (fst (check_clients r cs t fails m))"
proof (induction cs arbitrary: m)
  case Nil
  then show ?case by simp
next
  case (Cons c cs)
  from Cons.prems have "timing_consistent (fst (check_client r c t fails m))"
    by (rule check_client_timing_consistent)
  from Cons.IH[OF this] show ?case
    by (simp add: split_beta Let_def)
qed

lemma check_rooms_timing_consistent:
  "timing_consistent m \<Longrightarrow> timing_consistent (fst (check_rooms rs t fails m))"
proof (induction rs arbitrary: m)
  case Nil
  then show ?case by simp
next
  case (Cons r rs)
  show ?case
  proof (cases "map_of (last_activity_times m) r")
    case None
    with Cons show ?thesis by simp
  next
    case (Some acts)
    from Cons.prems have "timing_consistent (fst (check_clients r (dict_keys acts) t fails m))"
      by (rule check_clients_timing_consistent)
    from Cons.IH[OF this] Some show ?thesis
      by (simp add: split_beta Let_def)
  qed
qed

lemma cleanup_rooms_frame:
  "last_connection_times (fst (cleanup_rooms rs m)) = last_connection_times m"
  "last_refresh_times (fst (cleanup_rooms rs m)) = last_refresh_times m"
  by (induction rs arbitrary: m) (auto split: option.splits)

lemma check_timeout_pass_timing_consistent:
  "timing_consistent m \<Longrightarrow> timing_consistent (fst (check_timeout_pass t fails m))"
  using check_rooms_timing_consistent[of m "dict_keys (last_activity_times m)" t fails]
  by (simp add: check_timeout_pass_def split_beta Let_def timing_consistent_def
      cleanup_rooms_active cleanup_rooms_frame)

lemma apply_op_timing_consistent:
  assumes "timing_consistent m"
  shows "timing_consistent (apply_op t op m)"
proof (cases op)
  case (UpdateActivity r c)
  with assms show ?thesis
    by (simp add: timing_consistent_def update_activity_time_def Let_def)
qed (simp_all add: assms connect_timing_consistent disconnect_timing_consistent
      update_client_id_timing_consistent check_timeout_pass_timing_consistent)

lemma reachable_invariants:
  "rooms_nonempty (run ops (new_manager safe)) \<and> timing_consistent (run ops (new_manager safe))"
proof -
  have "rooms_nonempty m \<and> timing_consistent m \<Longrightarrow>
          rooms_nonempty (run ops m) \<and> timing_consistent (run ops m)" for m
  proof (induction ops arbitrary: m)
    case Nil
    then show ?case by simp
  next
    case (Cons p ops)
    obtain t op where p: "p = (t, op)" by (cases p)
    from Cons.prems have "rooms_nonempty (apply_op t op m) \<and> timing_consistent (apply_op t op m)"
      by (simp add: apply_op_nonempty apply_op_timing_consistent)
    from Cons.IH[OF this] p show ?case
      by simp
  qed
  moreover have "rooms_nonempty (new_manager safe) \<and> timing_consistent (new_manager safe)"
    by (simp add: rooms_nonempty_def timing_consistent_def new_manager_def)
  ultimately show ?thesis
    by blast
qed

lemma identify_own_room_never_raises:
  assumes "timing_consistent m" and "dict_in (normalize_room_id r) (active_connections m)"
  shows "snd (snd (update_client_id w c r t m)) = None"
proof -
  from timing_consistent_present[OF assms(1), of "normalize_room_id r"] assms(2)
  obtain conns refs where
    "map_of (last_connection_times m) (normalize_room_id r) = Some conns"
    "map_of (last_refresh_times m) (normalize_room_id r) = Some refs"
    by (auto simp: timing_present_def dict_in_def)
  then show ?thesis
    by (simp add: update_client_id_known_room)
qed

lemma connect_registers_once:
  assumes "list_all (\<lambda>p. w \<notin> set (snd p)) (active_connections m)"
  shows "count_list (snapshot (connect w r t m) (normalize_room_id r)) w \<le> 1
       \<and> only_in w (normalize_room_id r) (connect w r t m)"
proof -
  have "w \<notin> set (snapshot m (normalize_room_id r))"
  proof (cases "map_of (active_connections m) (normalize_room_id r)")
    case None
    then show ?thesis
      by (simp add: snapshot_def dict_get_def)
  next
    case (Some conns)
    with assms map_of_SomeD[OF Some] show ?thesis
      by (auto simp: snapshot_def dict_get_def list_all_iff)
  qed
  then have "count_list (snapshot m (normalize_room_id r)) w = 0"
    by (simp add: count_list_0_iff)
  then have c: "count_list (snapshot (connect w r t m) (normalize_room_id r)) w \<le> 1"
    by (simp add: snapshot_connect)
  from assms have "list_all (\<lambda>p. fst p = normalize_room_id r \<or> w \<notin> set (snd p))
                     (active_connections m)"
    by (simp add: list_all_iff)
  then have "only_in w (normalize_room_id r) (connect w r t m)"
    by (simp add: only_in_def connect_def Let_def list_all_update)
  with c show ?thesis
    by blast
qed

lemma update_activity_time_frame:
  "client_ids (update_activity_time r c t m) = client_ids m"
  "safe_room_ids (update_activity_time r c t m) = safe_room_ids m"
  "snapshot (update_activity_time r c t m) = snapshot m"
  by (simp_all add: update_activity_time_def Let_def snapshot_def fun_eq_iff)

lemma typed_frame_content_ok:
  assumes "map_of data ''type'' = Some ty" and "summarize ty data = Inr s"
  shows "text_content_ok data"
proof (rule ccontr)
  assume "\<not> text_content_ok data"
  from summarize_raises[OF this] assms show False
    by (simp add: dict_get_def)
qed

lemma broadcast_raised:
  "text_content_ok (h ! message) \<Longrightarrow> raised (broadcast m [] fails room_id message h) = None"
  using broadcast_stable[of h message room_id "[]" m fails] by simp

lemma broadcast_attempts:
  "text_content_ok (h ! message) \<Longrightarrow>
     attempts (effects (broadcast m [] fails room_id message h))
       = snapshot m (normalize_room_id room_id)"
  using broadcast_stable[of h message room_id "[]" m fails] by simp

lemma broadcast_frame_effects:
  assumes "text_content_ok data"
  shows "broadcast_frame room_id data message_type summary client_id fails m out =
           (m, out @ effects (broadcast m [] fails (JStr room_id) 0 [data])
                 @ [Log (LogMessageReceived message_type summary client_id)], Open)"
proof -
  from assms have "text_content_ok ([data] ! 0)"
    by simp
  from broadcast_raised[OF this] show ?thesis
    by (simp add: broadcast_frame_def Let_def)
qed

lemma handle_frame_ping:
  assumes "map_of data ''type'' = Some (JStr ''ping'')" and "\<not> fails websocket"
  shows "attempts (fst (snd (handle_frame websocket room_id data now fails m)))
           = websocket # snapshot m (normalize_room_id (JStr room_id))
       \<and> snd (snd (handle_frame websocket room_id data now fails m)) = Open"
proof -
  have ty: "dict_get data ''type'' JNull = JStr ''ping''"
    using assms(1) by (simp add: dict_get_def)
  have s: "summarize (JStr ''ping'') data = Inr (JStr [])"
    by (simp add: summarize_def)
  have ok: "text_content_ok data"
    by (rule typed_frame_content_ok[OF assms(1) s])
  then have ok0: "text_content_ok ([data] ! 0)"
    by simp
  show ?thesis
    using assms
    by (simp add: handle_frame_def Let_def ty s broadcast_frame_effects[OF ok]
        broadcast_attempts[OF ok0] update_activity_time_frame)
qed

lemma handle_frame_other:
  assumes "map_of data ''type'' = Some ty" and "summarize ty data = Inr s"
      and "ty \<noteq> JStr ''register_client''" and "ty \<noteq> JStr ''ping''"
  shows "payloads (fst (snd (handle_frame websocket room_id data now fails m)))
           = replicate (length (snapshot m (normalize_room_id (JStr room_id))))
               (if JStr (normalize_room_id (JStr room_id)) \<in> set (safe_room_ids m)
                   \<and> dict_in ''client_id'' data
                then AList.update ''client_id'' anonymous data
                else data)
       \<and> attempts (fst (snd (handle_frame websocket room_id data now fails m)))
           = snapshot m (normalize_room_id (JStr room_id))"
proof -
  have ty: "dict_get data ''type'' JNull = ty"
    using assms(1) by (simp add: dict_get_def)
  have ok: "text_content_ok data"
    by (rule typed_frame_content_ok[OF assms(1,2)])
  then have ok0: "text_content_ok ([data] ! 0)"
    by simp
  have len: "(0::nat) < length [data]"
    by simp
  show ?thesis
    using assms
    by (simp add: handle_frame_def Let_def ty broadcast_frame_effects[OF ok]
        broadcast_attempts[OF ok0] broadcast_payloads[OF ok0 len] update_activity_time_frame)
qed

subsection \<open>The refresh throttle along a trace\<close>

lemma refresh_notices_record_connection:
  "refresh_notices (fst (snd (record_connection r c t m out))) = refresh_notices out"
  by (simp add: record_connection_def Let_def split: option.splits)

lemma refresh_notices_update_client_id:
  "refresh_notices (fst (snd (update_client_id w c room_id now m))) =
     (if 0 < now - lookup_time (last_connection_times m) (normalize_room_id room_id) c
         \<and> now - lookup_time (last_connection_times m) (normalize_room_id room_id) c < 5
         \<and> 10 < now - lookup_time (last_refresh_times m) (normalize_room_id room_id) c
      then 1 else 0)"
  by (simp add: update_client_id_def Let_def lookup_time_def refresh_notices_record_connection
      split: option.splits)
     (simp add: refresh_notices_def)

lemma disconnect_room_kept:
  assumes "dict_in r' (active_connections (disconnect_room w r c t m))"
  shows "dict_in r' (active_connections m)
       \<and> entry_of (last_refresh_times (disconnect_room w r c t m)) r' c'
           = entry_of (last_refresh_times m) r' c'"
proof (cases "map_of (active_connections m) r")
  case None
  with assms show ?thesis
    by (simp add: disconnect_room_def)
next
  case (Some conns)
  show ?thesis
  proof (cases "w \<in> set conns")
    case False
    with Some assms show ?thesis
      by (simp add: disconnect_room_def)
  next
    case True
    show ?thesis
    proof (cases "remove1 w conns = []")
      case True
      with \<open>w \<in> set conns\<close> Some assms show ?thesis
        by (simp add: disconnect_room_def dict_in_delete_iff entry_of_delete)
    next
      case False
      from Some have here: "dict_in r (active_connections m)"
        by (simp add: dict_in_def)
      from False \<open>w \<in> set conns\<close> Some assms here show ?thesis
        by (auto simp: disconnect_room_def Let_def dict_in_update split: option.splits)
    qed
  qed
qed

lemma disconnect_kept:
  assumes "dict_in r' (active_connections (fst (disconnect w r t m)))"
  shows "dict_in r' (active_connections m)
       \<and> entry_of (last_refresh_times (fst (disconnect w r t m))) r' c'
           = entry_of (last_refresh_times m) r' c'"
proof -
  from assms
  have "dict_in r' (active_connections
          (disconnect_room w (normalize_room_id r) (dict_get (client_ids m) w unknown_client) t
             (m\<lparr>connection_times := AList.delete w (connection_times m)\<rparr>)))"
    by (simp add: disconnect_def Let_def)
  from disconnect_room_kept[OF this, of c'] show ?thesis
    by (simp add: disconnect_def Let_def)
qed

lemma check_client_kept:
  assumes "dict_in r' (active_connections (fst (check_client r c t fails m)))"
  shows "dict_in r' (active_connections m)
       \<and> entry_of (last_refresh_times (fst (check_client r c t fails m))) r' c'
           = entry_of (last_refresh_times m) r' c'"
proof -
  have "dict_in r' (active_connections m)
       \<and> entry_of (last_refresh_times (fst (disconnect w (JStr r) t (delete_activity r c m)))) r' c'
           = entry_of (last_refresh_times m) r' c'"
    if "dict_in r' (active_connections (fst (disconnect w (JStr r) t (delete_activity r c m))))"
    for w
    using disconnect_kept[OF that, of c'] by (simp add: delete_activity_frame)
  with assms show ?thesis
    by (auto simp: check_client_state delete_activity_frame split: option.splits if_splits)
qed

lemma check_clients_kept:
  "dict_in r' (active_connections (fst (check_clients r cs t fails m))) \<Longrightarrow>
     dict_in r' (active_connections m)
     \<and> entry_of (last_refresh_times (fst (check_clients r cs t fails m))) r' c'
         = entry_of (last_refresh_times m) r' c'"
proof (induction cs arbitrary: m)
  case Nil
  then show ?case by simp
next
  case (Cons c cs)
  let ?m1 = "fst (check_client r c t fails m)"
  from Cons.prems have "dict_in r' (active_connections (fst (check_clients r cs t fails ?m1)))"
    by (simp add: split_beta Let_def)
  from Cons.IH[OF this]
  have 1: "dict_in r' (active_connections ?m1)"
    and 2: "entry_of (last_refresh_times (fst (check_clients r cs t fails ?m1))) r' c'
         = entry_of (last_refresh_times ?m1) r' c'"
    by simp_all
  from check_client_kept[OF 1, of c'] 2 show ?case
    by (simp add: split_beta Let_def)
qed

lemma check_rooms_kept:
  "dict_in r' (active_connections (fst (check_rooms rs t fails m))) \<Longrightarrow>
     dict_in r' (active_connections m)
     \<and> entry_of (last_refresh_times (fst (check_rooms rs t fails m))) r' c'
         = entry_of (last_refresh_times m) r' c'"
proof (induction rs arbitrary: m)
  case Nil
  then show ?case by simp
next
  case (Cons r rs)
  show ?case
  proof (cases "map_of (last_activity_times m) r")
    case None
    with Cons show ?thesis by simp
  next
    case (Some acts)
    let ?m1 = "fst (check_clients r (dict_keys acts) t fails m)"
    from Cons.prems Some
    have "dict_in r' (active_connections (fst (check_rooms rs t fails ?m1)))"
      by (simp add: split_beta Let_def)
    from Cons.IH[OF this]
    have 1: "dict_in r' (active_connections ?m1)"
      and 2: "entry_of (last_refresh_times (fst (check_rooms rs t fails ?m1))) r' c'
           = entry_of (last_refresh_times ?m1) r' c'"
      by simp_all
    from check_clients_kept[OF 1, of c'] 2 Some show ?thesis
      by (simp add: split_beta Let_def)
  qed
qed

lemma check_timeout_pass_kept:
  assumes "dict_in r' (active_connections (fst (check_timeout_pass t fails m)))"
  shows "entry_of (last_refresh_times (fst (check_timeout_pass t fails m))) r' c'
           = entry_of (last_refresh_times m) r' c'"
proof -
  from assms
  have "dict_in r' (active_connections
          (fst (check_rooms (dict_keys (last_activity_times m)) t fails m)))"
    by (simp add: check_timeout_pass_def split_beta Let_def cleanup_rooms_active)
  from check_rooms_kept[OF this, of c'] show ?thesis
    by (simp add: check_timeout_pass_def split_beta Let_def cleanup_rooms_frame)
qed

lemma record_connection_refresh:
  "last_refresh_times (fst (record_connection r c t m out)) = last_refresh_times m"
  by (simp add: record_connection_def Let_def split: option.splits)

lemma update_client_id_refresh_entry:
  "entry_of (last_refresh_times (fst (update_client_id w c r t m))) r' c'
     = entry_of (last_refresh_times m) r' c'
   \<or> entry_of (last_refresh_times (fst (update_client_id w c r t m))) r' c' = Some t"
  by (auto simp: update_client_id_def Let_def record_connection_refresh entry_of_update
      AList.update_conv' entry_of_def split: option.splits)

lemma apply_op_refresh_at_least:
  assumes "refresh_at_least m r c t0" and "t0 \<le> t"
      and "dict_in r (active_connections m)"
      and "dict_in r (active_connections (apply_op t op m))"
  shows "refresh_at_least (apply_op t op m) r c t0"
proof (cases op)
  case (Connect w r')
  with assms show ?thesis
    by (auto simp: refresh_at_least_def connect_timing entry_of_update)
next
  case (Disconnect w r')
  with assms disconnect_kept[of r w r' t m c] show ?thesis
    by (simp add: refresh_at_least_def)
next
  case (Identify w c' r')
  with assms update_client_id_refresh_entry[of w c' r' t m r c] show ?thesis
    by (auto simp: refresh_at_least_def)
next
  case (UpdateActivity r' c')
  with assms show ?thesis
    by (simp add: refresh_at_least_def update_activity_time_def Let_def)
next
  case (Sweep fails)
  with assms check_timeout_pass_kept[of r t fails m c] show ?thesis
    by (simp add: refresh_at_least_def)
qed

lemma run_refresh_at_least:
  "refresh_at_least m r c t0 \<Longrightarrow> list_all (\<lambda>p. t0 \<le> fst p) ops \<Longrightarrow> keeps_room r ops m
     \<Longrightarrow> refresh_at_least (run ops m) r c t0"
proof (induction ops arbitrary: m)
  case Nil
  then show ?case by simp
next
  case (Cons p ops)
  obtain t op where p: "p = (t, op)" by (cases p)
  with Cons.prems have "refresh_at_least (apply_op t op m) r c t0"
    by (simp add: apply_op_refresh_at_least)
  with Cons.IH[of "apply_op t op m"] Cons.prems p show ?case
    by simp
qed

lemma throttled_after_notice:
  assumes "refresh_at_least m r c t1" and "t2 - t1 \<le> 10"
  shows "\<not> 10 < t2 - lookup_time (last_refresh_times m) r c"
  using assms
  by (auto simp: refresh_at_least_def lookup_time_entry split: option.splits)

section \<open>The claims\<close>

subsection \<open>The receive loop\<close>

text \<open>
  Claim C1. The claim says that a \<^verbatim>\<open>ping\<close> or \<^verbatim>\<open>register_client\<close> frame is handled locally and
  is not passed to \<^verbatim>\<open>broadcast\<close>. In the source the \<^verbatim>\<open>try\<close> block that calls
  \<^verbatim>\<open>manager.broadcast(room_id, data)\<close> stands after the whole \<^verbatim>\<open>if/elif/else\<close> chain, not
  inside its \<^verbatim>\<open>else\<close> branch, so it runs for every frame. With sockets 1 and 2 in room
  123456, a ping from socket 1 is answered with a pong echoing the timestamp, and then the
  ping frame itself is sent to both sockets of the room.
\<close>

theorem ping_frame_is_broadcast:
  "handle_frame 1 ''123456'' [(''type'', JStr ''ping''), (''timestamp'', JInt 7)] 1001
     (\<lambda>w. False) (two_in_room []) =
   (two_in_room [],
    [Sent 1 [(''type'', JStr ''pong''), (''timestamp'', JInt 7)],
     Sent 1 [(''type'', JStr ''ping''), (''timestamp'', JInt 7)],
     Sent 2 [(''type'', JStr ''ping''), (''timestamp'', JInt 7)],
     Log (LogMessageReceived (JStr ''ping'') (JStr []) (JStr ''unknown_client''))],
    Open)"
  by code_simp

subsection \<open>Redaction in safe rooms\<close>

text \<open>
  Claim C2. The claim says that in every room of the configured safe set a broadcast message
  carrying \<^verbatim>\<open>client_id\<close> reaches each recipient with the placeholder in that field.
  \<^verbatim>\<open>broadcast\<close> tests \<^verbatim>\<open>normalized_room_id in self.safe_room_ids\<close> on the raw configured
  list, while \<^verbatim>\<open>disconnect\<close>, \<^verbatim>\<open>update_client_id\<close>, \<^verbatim>\<open>check_timeout\<close> and the endpoint first
  turn integer entries into six-character strings. With the room configured as the integer
  123456, room 123456 is safe for those four (first conjunct), yet both recipients of a
  broadcast receive the true label \<^verbatim>\<open>alice\<close> (second conjunct).
\<close>

theorem broadcast_integer_safe_room_not_redacted:
  "JStr (normalize_room_id (JStr ''123456'')) \<in> set (safe_rooms_str (two_in_room [JInt 123456]))
   \<and> effects (broadcast (two_in_room [JInt 123456]) [] (\<lambda>w. False) (JStr ''123456'') 0
        [[(''type'', JStr ''text''), (''content'', JStr ''hi''), (''client_id'', JStr ''alice'')]])
     = [Sent 1 [(''type'', JStr ''text''), (''content'', JStr ''hi''), (''client_id'', JStr ''alice'')],
        Sent 2 [(''type'', JStr ''text''), (''content'', JStr ''hi''), (''client_id'', JStr ''alice'')]]"
proof
  show "JStr (normalize_room_id (JStr ''123456'')) \<in> set (safe_rooms_str (two_in_room [JInt 123456]))"
    by (simp add: safe_rooms_str_def two_in_room_def one_in_room_def new_manager_def
        safe_room_ids_connect zfill_str_int_123456 normalize_123456)
  show "effects (broadcast (two_in_room [JInt 123456]) [] (\<lambda>w. False) (JStr ''123456'') 0
        [[(''type'', JStr ''text''), (''content'', JStr ''hi''), (''client_id'', JStr ''alice'')]])
     = [Sent 1 [(''type'', JStr ''text''), (''content'', JStr ''hi''), (''client_id'', JStr ''alice'')],
        Sent 2 [(''type'', JStr ''text''), (''content'', JStr ''hi''), (''client_id'', JStr ''alice'')]]"
    by code_simp
qed

subsection \<open>Operations on a room without state\<close>

text \<open>
  Claim C3. The claim says that no registry operation raises on a room without registry
  state, \<^verbatim>\<open>update_client_id\<close> in particular. Socket 1 is connected to room 123456 and names
  room 654321 in its register frame: \<^verbatim>\<open>update_client_id\<close> binds the label, logs a connect and
  then raises \<^verbatim>\<open>KeyError\<close> at \<^verbatim>\<open>self.last_connection_times[normalized_room_id][client_id]\<close>;
  in the endpoint the exception leaves the receive loop and the socket is disconnected.
\<close>

theorem update_client_id_unknown_room_raises:
  "update_client_id 1 (JStr ''alice'') (JStr ''654321'') 1001 (one_in_room []) =
     ((one_in_room [])\<lparr>client_ids := [(1, JStr ''alice'')]\<rparr>,
      [Log (LogConnect (JStr ''alice'') ''654321'')], Some KeyError)
   \<and> handle_frame 1 ''123456''
       [(''type'', JStr ''register_client''), (''client_id'', JStr ''alice''),
        (''room_id'', JStr ''654321'')] 1001 (\<lambda>w. False) (one_in_room []) =
     (new_manager [],
      [Log (LogConnect (JStr ''alice'') ''654321''),
       Log (LogWebSocketError (JStr ''alice'') ''123456'')], Closed)"
  by code_simp

subsection \<open>Idempotent disconnect\<close>

text \<open>
  Claim C7. For a socket that is listed at most once, and only in the room it is
  disconnected from (what one \<^verbatim>\<open>connect\<close> per socket gives), a second \<^verbatim>\<open>disconnect\<close> returns
  the registry unchanged (all seven fields) and logs no duration; after the first
  \<^verbatim>\<open>disconnect\<close> the socket is in no room's membership, and stays out through any later
  operations that do not connect that same socket again.
\<close>

theorem disconnect_idempotent:
  assumes "count_list (snapshot m (normalize_room_id room_id)) websocket \<le> 1"
      and "only_in websocket (normalize_room_id room_id) m"
      and "list_all (\<lambda>p. \<not> connects websocket (snd p)) ops"
  shows "disconnect websocket room_id t2 (fst (disconnect websocket room_id t1 m))
           = (fst (disconnect websocket room_id t1 m), [])
       \<and> absent websocket (fst (disconnect websocket room_id t1 m))
       \<and> absent websocket (run ops (fst (disconnect websocket room_id t1 m)))"
  using assms disconnect_twice absent_after_disconnect absent_run by blast

theorem disconnect_idempotent_witness:
  "count_list (snapshot (two_in_room []) (normalize_room_id (JStr ''123456''))) 1 \<le> 1
   \<and> only_in 1 (normalize_room_id (JStr ''123456'')) (two_in_room [])
   \<and> list_all (\<lambda>p. \<not> connects 1 (snd p))
        [(1020, Connect 3 (JStr ''123456'')), (1030, Sweep (\<lambda>w. False))]
   \<and> snd (disconnect 1 (JStr ''123456'') 1010 (two_in_room []))
        = [Log (LogDisconnect (JStr ''unknown_client'') ''123456'' 10)]
   \<and> disconnect 1 (JStr ''123456'') 1015 (fst (disconnect 1 (JStr ''123456'') 1010 (two_in_room [])))
        = (fst (disconnect 1 (JStr ''123456'') 1010 (two_in_room [])), [])
   \<and> absent 1 (run [(1020, Connect 3 (JStr ''123456'')), (1030, Sweep (\<lambda>w. False))]
        (fst (disconnect 1 (JStr ''123456'') 1010 (two_in_room []))))"
proof -
  have a: "count_list (snapshot (two_in_room []) (normalize_room_id (JStr ''123456''))) 1 \<le> 1"
    by code_simp
  have b: "only_in 1 (normalize_room_id (JStr ''123456'')) (two_in_room [])"
    by code_simp
  have c: "list_all (\<lambda>p. \<not> connects 1 (snd p))
        [(1020, Connect 3 (JStr ''123456'')), (1030, Sweep (\<lambda>w. False))]"
    by (simp add: connects_def)
  have d: "snd (disconnect 1 (JStr ''123456'') 1010 (two_in_room []))
        = [Log (LogDisconnect (JStr ''unknown_client'') ''123456'' 10)]"
    by code_simp
  from a b c d disconnect_idempotent [OF a b c, of 1015 1010] show ?thesis
    by blast
qed

subsection \<open>Rooms in the connection map are never empty\<close>

text \<open>
  Claim C8. Every operation (connect, disconnect, identify, update activity, sweep) keeps
  the invariant that each room in \<^verbatim>\<open>active_connections\<close> has a non-empty connection list.
  When \<^verbatim>\<open>disconnect\<close> removes the last connection of a room, the room's entries in
  \<^verbatim>\<open>active_connections\<close>, \<^verbatim>\<open>last_connection_times\<close> and \<^verbatim>\<open>last_refresh_times\<close> are deleted;
  \<^verbatim>\<open>disconnect\<close> never changes \<^verbatim>\<open>last_activity_times\<close>.
\<close>

theorem rooms_nonempty_invariant:
  assumes "rooms_nonempty m"
  shows "rooms_nonempty (apply_op now op m)
       \<and> last_activity_times (fst (disconnect websocket room_id now m)) = last_activity_times m
       \<and> (map_of (active_connections m) (normalize_room_id room_id) = Some [websocket] \<longrightarrow>
            map_of (active_connections (fst (disconnect websocket room_id now m)))
              (normalize_room_id room_id) = None
          \<and> map_of (last_connection_times (fst (disconnect websocket room_id now m)))
              (normalize_room_id room_id) = None
          \<and> map_of (last_refresh_times (fst (disconnect websocket room_id now m)))
              (normalize_room_id room_id) = None)"
  using assms apply_op_nonempty disconnect_activity disconnect_last by blast

theorem rooms_nonempty_invariant_witness:
  "rooms_nonempty (one_in_room [])
   \<and> map_of (active_connections (one_in_room [])) (normalize_room_id (JStr ''123456'')) = Some [1]
   \<and> rooms_nonempty (apply_op 1010 (Connect 2 (JStr ''000042'')) (one_in_room []))
   \<and> map_of (active_connections (fst (disconnect 1 (JStr ''123456'') 1010 (one_in_room []))))
        (normalize_room_id (JStr ''123456'')) = None
   \<and> map_of (last_connection_times (fst (disconnect 1 (JStr ''123456'') 1010 (one_in_room []))))
        (normalize_room_id (JStr ''123456'')) = None
   \<and> map_of (last_refresh_times (fst (disconnect 1 (JStr ''123456'') 1010 (one_in_room []))))
        (normalize_room_id (JStr ''123456'')) = None"
proof -
  have h: "rooms_nonempty (one_in_room [])"
    by code_simp
  have l: "map_of (active_connections (one_in_room [])) (normalize_room_id (JStr ''123456''))
             = Some [1]"
    by code_simp
  show ?thesis
    using h l
      rooms_nonempty_invariant [OF h, of 1010 "Connect 2 (JStr ''000042'')" 1 "JStr ''123456''"]
    by simp
qed

subsection \<open>Partial failure isolation in broadcast\<close>

text \<open>
  Claim C5. Take a message whose \<^verbatim>\<open>content\<close> is a string whenever its \<^verbatim>\<open>type\<close> is
  \<^verbatim>\<open>text\<close>. In every interleaving, which sends fail has no influence on which sockets get a
  send attempt (a failed send is caught and the loop goes on); the sockets reached are the
  attempted ones whose send does not fail; the two counters add up to the number of
  attempts; and a room without members gets no send and raises nothing. When no step of
  another task changes the membership of the room while the sends are awaited, nothing is
  raised, the sockets attempted are, in order and one attempt each, the members of the room
  at the call, and the counters add up to the number of members.
\<close>

theorem broadcast_partial_failure_isolation:
  assumes "text_content_ok (h ! message)"
  shows "attempts (effects (broadcast m env fails room_id message h))
           = attempts (effects (broadcast m env fails' room_id message h))
       \<and> delivered (effects (broadcast m env fails room_id message h))
           = filter (\<lambda>w. \<not> fails w) (attempts (effects (broadcast m env fails room_id message h)))
       \<and> successful_sends (broadcast m env fails room_id message h)
           + failed_sends (broadcast m env fails room_id message h)
           = length (attempts (effects (broadcast m env fails room_id message h)))
       \<and> (snapshot m (normalize_room_id room_id) = [] \<longrightarrow>
            effects (broadcast m env fails room_id message h) = []
            \<and> raised (broadcast m env fails room_id message h) = None)
       \<and> (membership_stable (normalize_room_id room_id) env m \<longrightarrow>
            raised (broadcast m env fails room_id message h) = None
            \<and> attempts (effects (broadcast m env fails room_id message h))
                = snapshot m (normalize_room_id room_id)
            \<and> delivered (effects (broadcast m env fails room_id message h))
                = filter (\<lambda>w. \<not> fails w) (snapshot m (normalize_room_id room_id))
            \<and> successful_sends (broadcast m env fails room_id message h)
                + failed_sends (broadcast m env fails room_id message h)
                = length (snapshot m (normalize_room_id room_id))
            \<and> successful_sends (broadcast m env fails room_id message h)
                = length (filter (\<lambda>w. \<not> fails w) (snapshot m (normalize_room_id room_id))))"
proof (intro conjI impI)
  note tally = broadcast_tally[of m env fails room_id message h]
  show "attempts (effects (broadcast m env fails room_id message h))
           = attempts (effects (broadcast m env fails' room_id message h))"
    using broadcast_control by blast
  show d: "delivered (effects (broadcast m env fails room_id message h))
           = filter (\<lambda>w. \<not> fails w) (attempts (effects (broadcast m env fails room_id message h)))"
    using tally by blast
  show c: "successful_sends (broadcast m env fails room_id message h)
           + failed_sends (broadcast m env fails room_id message h)
           = length (attempts (effects (broadcast m env fails room_id message h)))"
    using tally by blast
  have s: "successful_sends (broadcast m env fails room_id message h)
       = length (delivered (effects (broadcast m env fails room_id message h)))"
    using tally by blast
  show "effects (broadcast m env fails room_id message h) = []"
    and "raised (broadcast m env fails room_id message h) = None"
    if "snapshot m (normalize_room_id room_id) = []"
    using broadcast_empty_room[OF assms that] by simp_all
  assume st: "membership_stable (normalize_room_id room_id) env m"
  note stable = broadcast_stable[OF assms st, of fails]
  show "raised (broadcast m env fails room_id message h) = None"
    using stable by blast
  show a: "attempts (effects (broadcast m env fails room_id message h))
                = snapshot m (normalize_room_id room_id)"
    using stable by blast
  show "delivered (effects (broadcast m env fails room_id message h))
                = filter (\<lambda>w. \<not> fails w) (snapshot m (normalize_room_id room_id))"
    by (simp only: d a)
  show "successful_sends (broadcast m env fails room_id message h)
                + failed_sends (broadcast m env fails room_id message h)
                = length (snapshot m (normalize_room_id room_id))"
    by (simp only: c a)
  show "successful_sends (broadcast m env fails room_id message h)
                = length (filter (\<lambda>w. \<not> fails w) (snapshot m (normalize_room_id room_id)))"
    by (simp only: s d a)
qed

theorem broadcast_partial_failure_isolation_witness:
  "text_content_ok ([alice_text] ! 0)
   \<and> membership_stable (normalize_room_id (JStr ''123456''))
        [[apply_op 1001 (Identify 2 (JStr ''bob'') (JStr ''123456''))]] (two_in_room [])
   \<and> snapshot (two_in_room []) (normalize_room_id (JStr ''123456'')) = [1, 2]
   \<and> attempts (effects (broadcast (two_in_room [])
        [[apply_op 1001 (Identify 2 (JStr ''bob'') (JStr ''123456''))]] (\<lambda>w. w = 1)
        (JStr ''123456'') 0 [alice_text])) = [1, 2]
   \<and> delivered (effects (broadcast (two_in_room [])
        [[apply_op 1001 (Identify 2 (JStr ''bob'') (JStr ''123456''))]] (\<lambda>w. w = 1)
        (JStr ''123456'') 0 [alice_text])) = [2]
   \<and> successful_sends (broadcast (two_in_room [])
        [[apply_op 1001 (Identify 2 (JStr ''bob'') (JStr ''123456''))]] (\<lambda>w. w = 1)
        (JStr ''123456'') 0 [alice_text])
       + failed_sends (broadcast (two_in_room [])
        [[apply_op 1001 (Identify 2 (JStr ''bob'') (JStr ''123456''))]] (\<lambda>w. w = 1)
        (JStr ''123456'') 0 [alice_text]) = 2
   \<and> raised (broadcast (two_in_room [])
        [[apply_op 1001 (Identify 2 (JStr ''bob'') (JStr ''123456''))]] (\<lambda>w. w = 1)
        (JStr ''123456'') 0 [alice_text]) = None
   \<and> snapshot (two_in_room []) (normalize_room_id (JStr ''000042'')) = []
   \<and> effects (broadcast (two_in_room [])
        [[apply_op 1001 (Identify 2 (JStr ''bob'') (JStr ''123456''))]] (\<lambda>w. w = 1)
        (JStr ''000042'') 0 [alice_text]) = []
   \<and> raised (broadcast (two_in_room [])
        [[apply_op 1001 (Identify 2 (JStr ''bob'') (JStr ''123456''))]] (\<lambda>w. w = 1)
        (JStr ''000042'') 0 [alice_text]) = None"
proof -
  let ?env = "[[apply_op 1001 (Identify 2 (JStr ''bob'') (JStr ''123456''))]]"
  have t: "text_content_ok ([alice_text] ! 0)"
    by code_simp
  have m: "membership_stable (normalize_room_id (JStr ''123456'')) ?env (two_in_room [])"
    by code_simp
  have s: "snapshot (two_in_room []) (normalize_room_id (JStr ''123456'')) = [1, 2]"
    by code_simp
  have e: "snapshot (two_in_room []) (normalize_room_id (JStr ''000042'')) = []"
    by code_simp
  let ?b = "broadcast (two_in_room []) ?env (\<lambda>w. w = 1) (JStr ''123456'') 0 [alice_text]"
  let ?b' = "broadcast (two_in_room []) ?env (\<lambda>w. w = 1) (JStr ''000042'') 0 [alice_text]"
  note here = broadcast_partial_failure_isolation [OF t, where m = "two_in_room []"
      and env = ?env and fails = "\<lambda>w. w = 1" and room_id = "JStr ''123456''"]
  note there = broadcast_partial_failure_isolation [OF t, where m = "two_in_room []"
      and env = ?env and fails = "\<lambda>w. w = 1" and room_id = "JStr ''000042''"]
  from here m have r1: "raised ?b = None"
    and a1: "attempts (effects ?b) = snapshot (two_in_room []) (normalize_room_id (JStr ''123456''))"
    and d1: "delivered (effects ?b)
               = filter (\<lambda>w. w \<noteq> 1) (snapshot (two_in_room []) (normalize_room_id (JStr ''123456'')))"
    and c1: "successful_sends ?b + failed_sends ?b
               = length (snapshot (two_in_room []) (normalize_room_id (JStr ''123456'')))"
    by blast+
  have a2: "attempts (effects ?b) = [1, 2]"
    by (simp only: a1 s)
  have d2: "delivered (effects ?b) = [2]"
    unfolding d1 s by simp
  have c2: "successful_sends ?b + failed_sends ?b = 2"
    unfolding c1 s by simp
  from there e have e2: "effects ?b' = []" and r2: "raised ?b' = None"
    by blast+
  from t m s e a2 d2 c2 r1 e2 r2 show ?thesis
    by blast
qed

text \<open>
  The claim as stated, for every broadcast, does not hold. For
  \<^verbatim>\<open>{"type": "text", "content": 5}\<close> the summary \<^verbatim>\<open>message.get('content', '')[:50]\<close> at the
  head of \<^verbatim>\<open>broadcast\<close> raises \<^verbatim>\<open>TypeError\<close> before the loop: no member of room 123456
  gets a send attempt, and the call raises on a room without connections as well. And the
  loop iterates the list that \<^verbatim>\<open>disconnect\<close> changes: with sockets 1, 2 and 3 in the room,
  socket 1 is disconnected while the send to it is awaited; the list is then 2, 3, the
  iterator goes on at its second position, and socket 2, a member at the call, gets no send
  attempt: two sends for three members. With socket 1 alone in the room the same disconnect
  deletes the room, and \<^verbatim>\<open>len(self.active_connections[normalized_room_id])\<close> after the
  loop raises \<^verbatim>\<open>KeyError\<close>.
\<close>

theorem broadcast_isolation_counterexample:
  "raised (broadcast (two_in_room []) [] (\<lambda>w. False) (JStr ''123456'') 0
        [[(''type'', JStr ''text''), (''content'', JInt 5)]]) = Some TypeError
   \<and> attempts (effects (broadcast (two_in_room []) [] (\<lambda>w. False) (JStr ''123456'') 0
        [[(''type'', JStr ''text''), (''content'', JInt 5)]])) = []
   \<and> raised (broadcast (new_manager []) [] (\<lambda>w. False) (JStr ''123456'') 0
        [[(''type'', JStr ''text''), (''content'', JInt 5)]]) = Some TypeError
   \<and> snapshot (three_in_room []) (normalize_room_id (JStr ''123456'')) = [1, 2, 3]
   \<and> attempts (effects (broadcast (three_in_room [])
        [[apply_op 1001 (Disconnect 1 (JStr ''123456''))]] (\<lambda>w. False) (JStr ''123456'') 0
        [alice_text])) = [1, 3]
   \<and> successful_sends (broadcast (three_in_room [])
        [[apply_op 1001 (Disconnect 1 (JStr ''123456''))]] (\<lambda>w. False) (JStr ''123456'') 0
        [alice_text])
       + failed_sends (broadcast (three_in_room [])
        [[apply_op 1001 (Disconnect 1 (JStr ''123456''))]] (\<lambda>w. False) (JStr ''123456'') 0
        [alice_text]) = 2
   \<and> snapshot (one_in_room []) (normalize_room_id (JStr ''123456'')) = [1]
   \<and> raised (broadcast (one_in_room [])
        [[apply_op 1001 (Disconnect 1 (JStr ''123456''))]] (\<lambda>w. False) (JStr ''123456'') 0
        [alice_text]) = Some KeyError"
  by code_simp

subsection \<open>Redaction does not touch stored state\<close>

text \<open>
  Claim C9. In every interleaving \<^verbatim>\<open>broadcast\<close> only appends new objects to the store:
  every object that existed at the call, the caller's message among them, is unchanged
  afterwards (the redacted copy is a new object), and the loop of \<^verbatim>\<open>broadcast\<close> writes
  nothing to the registry (with no step of another task it ends on the registry of the call). \<^verbatim>\<open>update_client_id\<close> binds the
  socket to the label it was given, and a label found in \<^verbatim>\<open>client_ids\<close> after any operation
  is the default label, the label bound before, or the label given to that very identify:
  no operation writes the placeholder.
\<close>

theorem redaction_leaves_stored_state:
  "take (length h) (store (broadcast m env fails room_id message h)) = h
   \<and> (message < length h \<longrightarrow> store (broadcast m env fails room_id message h) ! message = h ! message)
   \<and> fst (broadcast_loop fails (normalize_room_id room_id) message [] i (m, True) acc) = (m, True)
   \<and> map_of (client_ids (fst (update_client_id websocket client_id room_id now m))) websocket
       = Some client_id
   \<and> (map_of (client_ids (apply_op now op m)) w = Some l \<longrightarrow>
        l = unknown_client \<or> map_of (client_ids m) w = Some l \<or> (\<exists>r. op = Identify w l r))"
proof (intro conjI impI)
  show "take (length h) (store (broadcast m env fails room_id message h)) = h"
    by (rule broadcast_store)
  show "store (broadcast m env fails room_id message h) ! message = h ! message"
    if "message < length h"
    using that by (rule broadcast_keeps_object)
  show "fst (broadcast_loop fails (normalize_room_id room_id) message [] i (m, True) acc) = (m, True)"
    by (simp add: loop_alone)
  show "map_of (client_ids (fst (update_client_id websocket client_id room_id now m))) websocket
       = Some client_id"
    by (rule update_client_id_binds)
  show "l = unknown_client \<or> map_of (client_ids m) w = Some l \<or> (\<exists>r. op = Identify w l r)"
    if "map_of (client_ids (apply_op now op m)) w = Some l"
    using that by (rule labels_come_from_identify)
qed

theorem redaction_leaves_stored_state_witness:
  "(0::nat) < length [alice_text]
   \<and> payloads (effects (broadcast (two_in_room [JStr ''123456'']) [] (\<lambda>w. False) (JStr ''123456'') 0
        [alice_text]))
       = [AList.update ''client_id'' anonymous alice_text,
          AList.update ''client_id'' anonymous alice_text]
   \<and> store (broadcast (two_in_room [JStr ''123456'']) [] (\<lambda>w. False) (JStr ''123456'') 0
        [alice_text]) ! 0 = alice_text
   \<and> map_of (client_ids (apply_op 1001 (Identify 1 (JStr ''alice'') (JStr ''123456''))
        (two_in_room [JStr ''123456'']))) 1 = Some (JStr ''alice'')
   \<and> map_of (client_ids (fst (update_client_id 1 (JStr ''alice'') (JStr ''123456'') 1001
        (two_in_room [JStr ''123456''])))) 1 = Some (JStr ''alice'')"
proof -
  have p: "payloads (effects (broadcast (two_in_room [JStr ''123456'']) [] (\<lambda>w. False)
        (JStr ''123456'') 0 [alice_text]))
       = [AList.update ''client_id'' anonymous alice_text,
          AList.update ''client_id'' anonymous alice_text]"
    by code_simp
  show ?thesis
    using p
      redaction_leaves_stored_state [where h = "[alice_text]"
        and m = "two_in_room [JStr ''123456'']" and env = "[]" and fails = "\<lambda>w. False"
        and room_id = "JStr ''123456''" and message = 0 and websocket = 1
        and client_id = "JStr ''alice''" and now = 1001
        and op = "Identify 1 (JStr ''alice'') (JStr ''123456'')" and w = 1
        and l = "JStr ''alice''"]
    by simp
qed

subsection \<open>Fresh connect or page refresh\<close>

text \<open>
  Claim C4. The time \<open>t0\<close> that \<^verbatim>\<open>update_client_id\<close> compares with is the one recorded for the
  label in the room's map of \<^verbatim>\<open>last_connection_times\<close> (0 if none). Two places write it:
  \<^verbatim>\<open>update_client_id\<close> itself, at every identify (line 197), and \<^verbatim>\<open>disconnect\<close>, for an
  identified connection that leaves other connections in the room (line 86). For a room that
  has its last-connection and last-refresh maps, \<^verbatim>\<open>update_client_id\<close> at time \<open>now\<close> takes
  the refresh branch exactly when \<open>0 < now - t0 < 5\<close>, and otherwise logs a connect; in
  the refresh branch the refresh is logged exactly when more than 10 seconds have passed
  since the recorded last refresh notice; in every branch the label's last-connection and
  last-activity times become \<open>now\<close> and nothing is raised. Take a later identify of the
  label at most 10 seconds after this one, with any operations in between (none before
  \<open>now\<close>) that leave the room in the connection map: the two log at most one refresh, and
  exactly one when this one logged it. The last conjunct is the write of \<^verbatim>\<open>disconnect\<close>.
\<close>

theorem identify_classification:
  assumes "dict_in (normalize_room_id room_id) (last_connection_times m)"
      and "dict_in (normalize_room_id room_id) (last_refresh_times m)"
  shows "snd (update_client_id w c room_id now m) =
      (if 0 < now - lookup_time (last_connection_times m) (normalize_room_id room_id) c
          \<and> now - lookup_time (last_connection_times m) (normalize_room_id room_id) c < 5
       then (if 10 < now - lookup_time (last_refresh_times m) (normalize_room_id room_id) c
             then [Log (LogRefresh (shown_label m (normalize_room_id room_id) c)
                          (formatted (normalize_room_id room_id)))]
             else [])
       else [Log (LogConnect (shown_label m (normalize_room_id room_id) c)
                    (formatted (normalize_room_id room_id)))],
       None)
    \<and> entry_of (last_connection_times (fst (update_client_id w c room_id now m)))
          (normalize_room_id room_id) c = Some now
    \<and> entry_of (last_activity_times (fst (update_client_id w c room_id now m)))
          (normalize_room_id room_id) c = Some now
    \<and> (keeps_room (normalize_room_id room_id) ops (fst (update_client_id w c room_id now m))
          \<and> list_all (\<lambda>p. now \<le> fst p) ops \<and> t2 - now \<le> 10 \<longrightarrow>
         refresh_notices
           (fst (snd (update_client_id w c room_id now m))
            @ fst (snd (update_client_id w2 c room_id t2
                     (run ops (fst (update_client_id w c room_id now m))))))
         \<le> 1)
    \<and> (0 < now - lookup_time (last_connection_times m) (normalize_room_id room_id) c
          \<and> now - lookup_time (last_connection_times m) (normalize_room_id room_id) c < 5
          \<and> 10 < now - lookup_time (last_refresh_times m) (normalize_room_id room_id) c
          \<and> keeps_room (normalize_room_id room_id) ops (fst (update_client_id w c room_id now m))
          \<and> list_all (\<lambda>p. now \<le> fst p) ops \<and> t2 - now \<le> 10 \<longrightarrow>
         refresh_notices
           (fst (snd (update_client_id w c room_id now m))
            @ fst (snd (update_client_id w2 c room_id t2
                     (run ops (fst (update_client_id w c room_id now m))))))
         = 1)
    \<and> (dict_get (client_ids m) w unknown_client = c \<and> c \<noteq> unknown_client
          \<and> w \<in> set (snapshot m (normalize_room_id room_id))
          \<and> remove1 w (snapshot m (normalize_room_id room_id)) \<noteq> [] \<longrightarrow>
         entry_of (last_connection_times (fst (disconnect w room_id t m)))
           (normalize_room_id room_id) c = Some t)"
proof -
  let ?r = "normalize_room_id room_id"
  from assms obtain conns refs where
    lc: "map_of (last_connection_times m) ?r = Some conns" and
    lr: "map_of (last_refresh_times m) ?r = Some refs"
    by (auto simp: dict_in_def)
  note first = update_client_id_known_room[OF lc lr, of w c now]
  let ?m' = "fst (update_client_id w c room_id now m)"
  let ?notified = "0 < now - lookup_time (last_connection_times m) ?r c
                   \<and> now - lookup_time (last_connection_times m) ?r c < 5
                   \<and> 10 < now - lookup_time (last_refresh_times m) ?r c"
  let ?both = "refresh_notices
           (fst (snd (update_client_id w c room_id now m))
            @ fst (snd (update_client_id w2 c room_id t2 (run ops ?m'))))"
  have t0: "lookup_time (last_connection_times m) ?r c = dict_get conns c 0"
    by (rule lookup_time_known[OF lc])
  have tr: "lookup_time (last_refresh_times m) ?r c = dict_get refs c 0"
    by (rule lookup_time_known[OF lr])
  have a: "snd (update_client_id w c room_id now m) =
      (if 0 < now - lookup_time (last_connection_times m) ?r c
          \<and> now - lookup_time (last_connection_times m) ?r c < 5
       then (if 10 < now - lookup_time (last_refresh_times m) ?r c
             then [Log (LogRefresh (shown_label m ?r c) (formatted ?r))]
             else [])
       else [Log (LogConnect (shown_label m ?r c) (formatted ?r))],
       None)"
    by (simp add: first t0 tr)
  have b: "entry_of (last_connection_times ?m') ?r c = Some now"
    by (simp add: first entry_of_update AList.update_conv')
  have c: "entry_of (last_activity_times ?m') ?r c = Some now"
    by (simp add: first entry_of_update AList.update_conv')
  have app: "refresh_notices (xs @ ys) = refresh_notices xs + refresh_notices ys" for xs ys
    by (simp add: refresh_notices_def)
  have out1: "refresh_notices (fst (snd (update_client_id w c room_id now m)))
                = (if ?notified then 1 else 0)"
    by (rule refresh_notices_update_client_id)
  have out2: "refresh_notices (fst (snd (update_client_id w2 c room_id t2 (run ops ?m')))) \<le> 1"
    by (simp add: refresh_notices_update_client_id)
  have silent: "refresh_notices (fst (snd (update_client_id w2 c room_id t2 (run ops ?m')))) = 0"
    if n: "?notified" and k: "keeps_room ?r ops ?m'"
      and l: "list_all (\<lambda>p. now \<le> fst p) ops" and w: "t2 - now \<le> 10"
  proof -
    from n have "entry_of (last_refresh_times ?m') ?r c = Some now"
      by (simp add: first t0 tr entry_of_update AList.update_conv')
    then have "refresh_at_least ?m' ?r c now"
      by (simp add: refresh_at_least_def)
    from run_refresh_at_least[OF this l k]
    have "refresh_at_least (run ops ?m') ?r c now" .
    from throttled_after_notice[OF this w] show ?thesis
      by (simp add: refresh_notices_update_client_id)
  qed
  have d: "?both \<le> 1"
    if "keeps_room ?r ops ?m' \<and> list_all (\<lambda>p. now \<le> fst p) ops \<and> t2 - now \<le> 10"
  proof (cases "?notified")
    case True
    with that silent have "refresh_notices
        (fst (snd (update_client_id w2 c room_id t2 (run ops ?m')))) = 0"
      by blast
    moreover from True out1
    have "refresh_notices (fst (snd (update_client_id w c room_id now m))) = 1"
      by (simp only: simp_thms if_True)
    ultimately show ?thesis
      by (simp add: app)
  next
    case False
    with out1 have "refresh_notices (fst (snd (update_client_id w c room_id now m))) = 0"
      by (simp only: if_False)
    with out2 show ?thesis
      by (simp add: app)
  qed
  have e: "?both = 1"
    if "?notified \<and> keeps_room ?r ops ?m' \<and> list_all (\<lambda>p. now \<le> fst p) ops
        \<and> t2 - now \<le> 10"
  proof -
    from that silent have "refresh_notices
        (fst (snd (update_client_id w2 c room_id t2 (run ops ?m')))) = 0"
      by blast
    moreover from that out1
    have "refresh_notices (fst (snd (update_client_id w c room_id now m))) = 1"
      by (simp only: simp_thms if_True)
    ultimately show ?thesis
      by (simp add: app)
  qed
  show ?thesis
  proof (intro conjI impI)
    show "snd (update_client_id w c room_id now m) =
      (if 0 < now - lookup_time (last_connection_times m) ?r c
          \<and> now - lookup_time (last_connection_times m) ?r c < 5
       then (if 10 < now - lookup_time (last_refresh_times m) ?r c
             then [Log (LogRefresh (shown_label m ?r c) (formatted ?r))]
             else [])
       else [Log (LogConnect (shown_label m ?r c) (formatted ?r))],
       None)"
      by (rule a)
    show "entry_of (last_connection_times ?m') ?r c = Some now"
      by (rule b)
    show "entry_of (last_activity_times ?m') ?r c = Some now"
      by (rule c)
    show "?both \<le> 1"
      if "keeps_room ?r ops ?m' \<and> list_all (\<lambda>p. now \<le> fst p) ops \<and> t2 - now \<le> 10"
      using that by (rule d)
    show "?both = 1"
      if "0 < now - lookup_time (last_connection_times m) ?r c
          \<and> now - lookup_time (last_connection_times m) ?r c < 5
          \<and> 10 < now - lookup_time (last_refresh_times m) ?r c
          \<and> keeps_room ?r ops ?m' \<and> list_all (\<lambda>p. now \<le> fst p) ops \<and> t2 - now \<le> 10"
      using that e by blast
    show "entry_of (last_connection_times (fst (disconnect w room_id t m))) ?r c = Some t"
      if "dict_get (client_ids m) w unknown_client = c \<and> c \<noteq> unknown_client
          \<and> w \<in> set (snapshot m ?r) \<and> remove1 w (snapshot m ?r) \<noteq> []"
      using that assms(1) disconnect_records by blast
  qed
qed

theorem identify_classification_witness:
  "dict_in (normalize_room_id (JStr ''123456'')) (last_connection_times refresh_ready)
   \<and> dict_in (normalize_room_id (JStr ''123456'')) (last_refresh_times refresh_ready)
   \<and> lookup_time (last_connection_times refresh_ready) (normalize_room_id (JStr ''123456''))
        (JStr ''alice'') = 1100
   \<and> lookup_time (last_refresh_times refresh_ready) (normalize_room_id (JStr ''123456''))
        (JStr ''alice'') = 0
   \<and> keeps_room (normalize_room_id (JStr ''123456''))
        [(1103, Disconnect 3 (JStr ''123456'')), (1103, Connect 4 (JStr ''123456''))]
        (fst (update_client_id 3 (JStr ''alice'') (JStr ''123456'') 1102 refresh_ready))
   \<and> list_all (\<lambda>p. 1102 \<le> fst p)
        [(1103::real, Disconnect 3 (JStr ''123456'')), (1103, Connect 4 (JStr ''123456''))]
   \<and> (1104::real) - 1102 \<le> 10
   \<and> entry_of (last_connection_times
         (fst (update_client_id 3 (JStr ''alice'') (JStr ''123456'') 1102 refresh_ready)))
        (normalize_room_id (JStr ''123456'')) (JStr ''alice'') = Some 1102
   \<and> entry_of (last_activity_times
         (fst (update_client_id 3 (JStr ''alice'') (JStr ''123456'') 1102 refresh_ready)))
        (normalize_room_id (JStr ''123456'')) (JStr ''alice'') = Some 1102
   \<and> refresh_notices
        (fst (snd (update_client_id 3 (JStr ''alice'') (JStr ''123456'') 1102 refresh_ready))
         @ fst (snd (update_client_id 4 (JStr ''alice'') (JStr ''123456'') 1104
                  (run [(1103, Disconnect 3 (JStr ''123456'')), (1103, Connect 4 (JStr ''123456''))]
                     (fst (update_client_id 3 (JStr ''alice'') (JStr ''123456'') 1102
                        refresh_ready))))))
       = 1
   \<and> dict_get (client_ids alice_identified) 1 unknown_client = JStr ''alice''
   \<and> remove1 1 (snapshot alice_identified (normalize_room_id (JStr ''123456''))) = [2]
   \<and> entry_of (last_connection_times (fst (disconnect 1 (JStr ''123456'') 1100 alice_identified)))
        (normalize_room_id (JStr ''123456'')) (JStr ''alice'') = Some 1100"
proof -
  let ?ops = "[(1103::real, Disconnect 3 (JStr ''123456'')), (1103, Connect 4 (JStr ''123456''))]"
  have a: "dict_in (normalize_room_id (JStr ''123456'')) (last_connection_times refresh_ready)"
    by code_simp
  have b: "dict_in (normalize_room_id (JStr ''123456'')) (last_refresh_times refresh_ready)"
    by code_simp
  have c: "lookup_time (last_connection_times refresh_ready) (normalize_room_id (JStr ''123456''))
        (JStr ''alice'') = 1100"
    by code_simp
  have d: "lookup_time (last_refresh_times refresh_ready) (normalize_room_id (JStr ''123456''))
        (JStr ''alice'') = 0"
    by code_simp
  have k: "keeps_room (normalize_room_id (JStr ''123456'')) ?ops
        (fst (update_client_id 3 (JStr ''alice'') (JStr ''123456'') 1102 refresh_ready))"
    by code_simp
  have l: "list_all (\<lambda>p. 1102 \<le> fst p) ?ops"
    by simp
  have g: "(1104::real) - 1102 \<le> 10"
    by simp
  note th = identify_classification [OF a b, where w = 3 and c = "JStr ''alice''"
        and now = 1102 and ?t2.0 = 1104 and ?w2.0 = 4 and ops = ?ops]
  have p: "0 < 1102 - lookup_time (last_connection_times refresh_ready)
                     (normalize_room_id (JStr ''123456'')) (JStr ''alice'')
         \<and> 1102 - lookup_time (last_connection_times refresh_ready)
                     (normalize_room_id (JStr ''123456'')) (JStr ''alice'') < 5
         \<and> 10 < 1102 - lookup_time (last_refresh_times refresh_ready)
                     (normalize_room_id (JStr ''123456'')) (JStr ''alice'')"
    by (simp add: c d)
  from th p k l g have n: "refresh_notices
        (fst (snd (update_client_id 3 (JStr ''alice'') (JStr ''123456'') 1102 refresh_ready))
         @ fst (snd (update_client_id 4 (JStr ''alice'') (JStr ''123456'') 1104
                  (run ?ops (fst (update_client_id 3 (JStr ''alice'') (JStr ''123456'') 1102
                        refresh_ready))))))
       = 1"
    by blast
  have a': "dict_in (normalize_room_id (JStr ''123456'')) (last_connection_times alice_identified)"
    by code_simp
  have b': "dict_in (normalize_room_id (JStr ''123456'')) (last_refresh_times alice_identified)"
    by code_simp
  have i: "dict_get (client_ids alice_identified) 1 unknown_client = JStr ''alice''"
    by code_simp
  have u: "JStr ''alice'' \<noteq> unknown_client"
    by code_simp
  have s: "1 \<in> set (snapshot alice_identified (normalize_room_id (JStr ''123456'')))"
    by code_simp
  have r: "remove1 1 (snapshot alice_identified (normalize_room_id (JStr ''123456''))) = [2]"
    by code_simp
  then have r': "remove1 1 (snapshot alice_identified (normalize_room_id (JStr ''123456''))) \<noteq> []"
    by simp
  note th' = identify_classification [OF a' b', where w = 1 and c = "JStr ''alice''"
        and t = 1100]
  from th' i u s r'
  have e: "entry_of (last_connection_times (fst (disconnect 1 (JStr ''123456'') 1100 alice_identified)))
        (normalize_room_id (JStr ''123456'')) (JStr ''alice'') = Some 1100"
    by blast
  from th a b c d k l g n i r e show ?thesis
    by blast
qed

text \<open>
  The claim as stated does not hold. It takes \<open>t0\<close> to be the time of the last disconnect,
  0 if there was none: socket 1, alone in the room, connects at 1000 and identifies as alice
  at 1001 and again at 1003; no disconnect has happened, yet the recorded time is 1001 and
  the identify at 1003 is a refresh and not a connect. And two refresh events within 10
  seconds need not give exactly one notice. They can give none: a page is reloaded three
  times; the identify at 1102 logs the refresh, the identifies at 1104 and 1106 each come
  one second after the recorded disconnect, take the refresh branch (no connect is logged)
  and are both suppressed, since the notice of 1102 is less than 10 seconds old. They can
  give two: alice alone in the room identifies twice (refresh at 1003, logged), leaves, so
  that the room and its refresh map are dropped, and comes back identifying twice (refresh
  at 1006, logged again).
\<close>

theorem identify_classification_counterexample:
  "alone_identified
     = run [(1000, Connect 1 (JStr ''123456'')),
            (1001, Identify 1 (JStr ''alice'') (JStr ''123456''))] (new_manager [])
   \<and> lookup_time (last_connection_times alone_identified) ''123456'' (JStr ''alice'') = 1001
   \<and> snd (update_client_id 1 (JStr ''alice'') (JStr ''123456'') 1003 alone_identified)
       = ([Log (LogRefresh (JStr ''alice'') ''123456'')], None)
   \<and> lookup_time (last_connection_times after_first_refresh) ''123456'' (JStr ''alice'') = 1103
   \<and> snd (update_client_id 4 (JStr ''alice'') (JStr ''123456'') 1104 after_first_refresh) = ([], None)
   \<and> lookup_time (last_connection_times after_second_refresh) ''123456'' (JStr ''alice'') = 1105
   \<and> snd (update_client_id 5 (JStr ''alice'') (JStr ''123456'') 1106 after_second_refresh) = ([], None)
   \<and> refresh_notices
        (fst (snd (update_client_id 4 (JStr ''alice'') (JStr ''123456'') 1104 after_first_refresh))
         @ fst (snd (update_client_id 5 (JStr ''alice'') (JStr ''123456'') 1106 after_second_refresh)))
       = 0
   \<and> lookup_time (last_connection_times alone_reset) ''123456'' (JStr ''alice'') = 1005
   \<and> snd (update_client_id 2 (JStr ''alice'') (JStr ''123456'') 1006 alone_reset)
       = ([Log (LogRefresh (JStr ''alice'') ''123456'')], None)
   \<and> refresh_notices
        (fst (snd (update_client_id 1 (JStr ''alice'') (JStr ''123456'') 1003 alone_identified))
         @ fst (snd (update_client_id 2 (JStr ''alice'') (JStr ''123456'') 1006 alone_reset)))
       = 2"
proof -
  have "alone_identified
     = run [(1000, Connect 1 (JStr ''123456'')),
            (1001, Identify 1 (JStr ''alice'') (JStr ''123456''))] (new_manager [])"
    by (simp add: alone_identified_def one_in_room_def)
  moreover have "lookup_time (last_connection_times alone_identified) ''123456'' (JStr ''alice'') = 1001
   \<and> snd (update_client_id 1 (JStr ''alice'') (JStr ''123456'') 1003 alone_identified)
       = ([Log (LogRefresh (JStr ''alice'') ''123456'')], None)
   \<and> lookup_time (last_connection_times after_first_refresh) ''123456'' (JStr ''alice'') = 1103
   \<and> snd (update_client_id 4 (JStr ''alice'') (JStr ''123456'') 1104 after_first_refresh) = ([], None)
   \<and> lookup_time (last_connection_times after_second_refresh) ''123456'' (JStr ''alice'') = 1105
   \<and> snd (update_client_id 5 (JStr ''alice'') (JStr ''123456'') 1106 after_second_refresh) = ([], None)
   \<and> refresh_notices
        (fst (snd (update_client_id 4 (JStr ''alice'') (JStr ''123456'') 1104 after_first_refresh))
         @ fst (snd (update_client_id 5 (JStr ''alice'') (JStr ''123456'') 1106 after_second_refresh)))
       = 0
   \<and> lookup_time (last_connection_times alone_reset) ''123456'' (JStr ''alice'') = 1005
   \<and> snd (update_client_id 2 (JStr ''alice'') (JStr ''123456'') 1006 alone_reset)
       = ([Log (LogRefresh (JStr ''alice'') ''123456'')], None)
   \<and> refresh_notices
        (fst (snd (update_client_id 1 (JStr ''alice'') (JStr ''123456'') 1003 alone_identified))
         @ fst (snd (update_client_id 2 (JStr ''alice'') (JStr ''123456'') 1006 alone_reset)))
       = 2"
    by code_simp
  ultimately show ?thesis
    by (rule conjI)
qed

subsection \<open>Disconnect of a connection that never identified\<close>

text \<open>
  Claim C10. An entry that \<^verbatim>\<open>disconnect\<close> writes into \<^verbatim>\<open>last_connection_times\<close> is at the
  disconnect time, for the label bound to the socket, that label is not the default one, and
  the room keeps other connections. Consequently, when a label has no recorded time in the
  room and a connection that never identified is disconnected, an identify of that label on
  the next connection to the room finds 0 and, the clock being at least 5, logs a connect
  and not a refresh.
\<close>

theorem unidentified_disconnect_records_nothing:
  assumes "dict_get (client_ids m) w unknown_client = unknown_client"
      and "entry_of (last_connection_times m) (normalize_room_id room_id) c = None"
      and "timing_present m (normalize_room_id room_id)"
      and "5 \<le> now"
  shows "(entry_of (last_connection_times (fst (disconnect w1 room1 t m1))) r l = Some t' \<longrightarrow>
            entry_of (last_connection_times m1) r l = Some t'
          \<or> (t' = t \<and> r = normalize_room_id room1
              \<and> l = dict_get (client_ids m1) w1 unknown_client \<and> l \<noteq> unknown_client
              \<and> w1 \<in> set (snapshot m1 (normalize_room_id room1))
              \<and> remove1 w1 (snapshot m1 (normalize_room_id room1)) \<noteq> []))
       \<and> lookup_time
            (last_connection_times (connect w2 room_id t2 (fst (disconnect w room_id t1 m))))
            (normalize_room_id room_id) c = 0
       \<and> snd (update_client_id w2 c room_id now
                 (connect w2 room_id t2 (fst (disconnect w room_id t1 m))))
           = ([Log (LogConnect (shown_label m (normalize_room_id room_id) c)
                      (formatted (normalize_room_id room_id)))], None)"
proof (intro conjI impI)
  let ?r = "normalize_room_id room_id"
  let ?m2 = "connect w2 room_id t2 (fst (disconnect w room_id t1 m))"
  from fresh_room_after_unidentified[OF assms(1-3), of w2 t2 t1]
  obtain conns refs where
    lc: "map_of (last_connection_times ?m2) ?r = Some conns" and
    lr: "map_of (last_refresh_times ?m2) ?r = Some refs" and
    none: "map_of conns c = None"
    by blast
  from none have zero: "dict_get conns c 0 = 0"
    by (simp add: dict_get_def)
  show "lookup_time (last_connection_times ?m2) ?r c = 0"
    by (simp add: lookup_time_known[OF lc] zero)
  have "shown_label ?m2 ?r c = shown_label m ?r c"
    by (rule shown_label_cong) (simp add: safe_room_ids_connect safe_room_ids_disconnect)
  with assms(4) show "snd (update_client_id w2 c room_id now ?m2)
           = ([Log (LogConnect (shown_label m ?r c) (formatted ?r))], None)"
    by (simp add: update_client_id_known_room[OF lc lr] zero)
next
  assume "entry_of (last_connection_times (fst (disconnect w1 room1 t m1))) r l = Some t'"
  then show "entry_of (last_connection_times m1) r l = Some t'
          \<or> (t' = t \<and> r = normalize_room_id room1
              \<and> l = dict_get (client_ids m1) w1 unknown_client \<and> l \<noteq> unknown_client
              \<and> w1 \<in> set (snapshot m1 (normalize_room_id room1))
              \<and> remove1 w1 (snapshot m1 (normalize_room_id room1)) \<noteq> [])"
    by (rule disconnect_written)
qed

theorem unidentified_disconnect_records_nothing_witness:
  "dict_get (client_ids (two_in_room [])) 2 unknown_client = unknown_client
   \<and> entry_of (last_connection_times (two_in_room [])) (normalize_room_id (JStr ''123456''))
       (JStr ''alice'') = None
   \<and> timing_present (two_in_room []) (normalize_room_id (JStr ''123456''))
   \<and> (5::real) \<le> 1004
   \<and> entry_of (last_connection_times (fst (disconnect 1 (JStr ''123456'') 1100 alice_identified)))
       ''123456'' (JStr ''alice'') = Some 1100
   \<and> JStr ''alice'' = dict_get (client_ids alice_identified) 1 unknown_client
   \<and> 1 \<in> set (snapshot alice_identified (normalize_room_id (JStr ''123456'')))
   \<and> remove1 1 (snapshot alice_identified (normalize_room_id (JStr ''123456''))) \<noteq> []
   \<and> lookup_time
        (last_connection_times
           (connect 3 (JStr ''123456'') 1003 (fst (disconnect 2 (JStr ''123456'') 1002 (two_in_room [])))))
        (normalize_room_id (JStr ''123456'')) (JStr ''alice'') = 0
   \<and> snd (update_client_id 3 (JStr ''alice'') (JStr ''123456'') 1004
            (connect 3 (JStr ''123456'') 1003 (fst (disconnect 2 (JStr ''123456'') 1002 (two_in_room [])))))
       = ([Log (LogConnect (shown_label (two_in_room []) (normalize_room_id (JStr ''123456''))
                  (JStr ''alice''))
              (formatted (normalize_room_id (JStr ''123456''))))], None)"
proof -
  have a: "dict_get (client_ids (two_in_room [])) 2 unknown_client = unknown_client"
    by code_simp
  have b: "entry_of (last_connection_times (two_in_room [])) (normalize_room_id (JStr ''123456''))
       (JStr ''alice'') = None"
    by code_simp
  have c: "timing_present (two_in_room []) (normalize_room_id (JStr ''123456''))"
    by code_simp
  have d: "(5::real) \<le> 1004"
    by simp
  have e: "entry_of (last_connection_times (fst (disconnect 1 (JStr ''123456'') 1100 alice_identified)))
       ''123456'' (JStr ''alice'') = Some 1100"
    by code_simp
  have f: "entry_of (last_connection_times alice_identified) ''123456'' (JStr ''alice'') \<noteq> Some 1100"
    by code_simp
  note th = unidentified_disconnect_records_nothing [OF a b c d, where ?w2.0 = 3
        and ?t2.0 = 1003 and ?t1.0 = 1002 and ?w1.0 = 1 and ?room1.0 = "JStr ''123456''"
        and t = 1100 and ?m1.0 = alice_identified and r = "''123456''" and l = "JStr ''alice''"
        and t' = 1100]
  from th e f
  have g: "JStr ''alice'' = dict_get (client_ids alice_identified) 1 unknown_client
     \<and> 1 \<in> set (snapshot alice_identified (normalize_room_id (JStr ''123456'')))
     \<and> remove1 1 (snapshot alice_identified (normalize_room_id (JStr ''123456''))) \<noteq> []"
    by blast
  from th a b c d e g show ?thesis
    by blast
qed

text \<open>
  The claim as stated, that the identify following a never-identified connection always
  finds 0, does not hold, because \<^verbatim>\<open>update_client_id\<close> itself writes the label's
  last-connection time. Socket 1 identified as alice at 1001 and is still connected; socket
  2 never identifies and is disconnected at 1002, which records nothing; socket 3 connects
  and identifies as alice at 1004, finds 1001 and takes the refresh branch.
\<close>

theorem unidentified_disconnect_counterexample:
  "dict_get (client_ids alice_identified) 2 unknown_client = unknown_client
   \<and> last_connection_times (fst (disconnect 2 (JStr ''123456'') 1002 alice_identified))
       = last_connection_times alice_identified
   \<and> lookup_time
        (last_connection_times
           (connect 3 (JStr ''123456'') 1003 (fst (disconnect 2 (JStr ''123456'') 1002 alice_identified))))
        ''123456'' (JStr ''alice'') = 1001
   \<and> snd (update_client_id 3 (JStr ''alice'') (JStr ''123456'') 1004
            (connect 3 (JStr ''123456'') 1003 (fst (disconnect 2 (JStr ''123456'') 1002 alice_identified))))
       = ([Log (LogRefresh (JStr ''alice'') ''123456'')], None)"
  by code_simp

subsection \<open>The idle sweep\<close>



end
